theory Spec2Isabelle
  imports Complex_Main "HOL-Library.AList"
begin

section \<open>Shared data model\<close>

subsection \<open>JSON values as Python loads them\<close>

text \<open>
  Certificates are JSON documents. \<open>json.load\<close> yields \<open>None\<close>, \<open>bool\<close>, \<open>int\<close>,
  \<open>float\<close>, \<open>str\<close>, \<open>list\<close> and \<open>dict\<close> values. A dict is an association list in
  insertion order, looked up with \<open>map_of\<close>. A float is held by the text that
  Python's \<open>str\<close> prints for it, which is all the tools ever do with one.
\<close>

datatype json =
    JNull
  | JBool bool
  | JInt int
  | JFloat string
  | JStr string
  | JArr "json list"
  | JObj "(string \<times> json) list"

datatype error =
    FileNotFoundError string
  | ValueError string
  | KeyError string
  | AttributeError
  | TypeError
  | ZeroDivisionError
  | SystemExit string


text \<open>Sequencing of steps that may raise: the first exception ends the run.\<close>

definition bind_err :: "error + 'a \<Rightarrow> ('a \<Rightarrow> error + 'b) \<Rightarrow> error + 'b" where
  "bind_err r f = (case r of Inl e \<Rightarrow> Inl e | Inr x \<Rightarrow> f x)"

subsection \<open>Text of Python values\<close>

definition digit_char :: "nat \<Rightarrow> char" where
  "digit_char n = ''0123456789'' ! n"

fun str_nat :: "nat \<Rightarrow> string" where
  "str_nat n = (if n < 10 then [digit_char n] else str_nat (n div 10) @ [digit_char (n mod 10)])"

definition str_int :: "int \<Rightarrow> string" where
  "str_int i = (if i < 0 then CHR ''-'' # str_nat (nat (- i)) else str_nat (nat i))"

text \<open>
  \<open>str(v)\<close> for a loaded JSON value. For a list or a dict Python prints the \<open>repr\<close> of
  the members; \<open>py_repr\<close> writes a member string between single quotes, which is what
  Python does for a string holding neither a quote nor a backslash.
\<close>

fun py_repr :: "json \<Rightarrow> string" where
  "py_repr JNull = ''None''"
| "py_repr (JBool b) = (if b then ''True'' else ''False'')"
| "py_repr (JInt i) = str_int i"
| "py_repr (JFloat s) = s"
| "py_repr (JStr s) = [CHR 0x27] @ s @ [CHR 0x27]"
| "py_repr (JArr xs) = ''['' @ concat (map (\<lambda>x. py_repr x @ '', '') xs) @ '']''"
| "py_repr (JObj kvs) =
     ''{'' @ concat (map (\<lambda>(k, v). [CHR 0x27] @ k @ [CHR 0x27] @ '': '' @ py_repr v @ '', '') kvs) @ ''}''"

definition py_str :: "json \<Rightarrow> string" where
  "py_str v = (case v of JStr s \<Rightarrow> s | _ \<Rightarrow> py_repr v)"

subsection \<open>Reading a decimal literal\<close>

text \<open>
  \<open>mp.mpf(s)\<close> turns a string into a number and raises \<open>ValueError\<close> on anything
  else. Numbers of the arbitrary-precision library are modelled by the real numbers
  they stand for: a literal \<open>[sign] digits [. digits]\<close> denotes its decimal value, and
  arithmetic on them is exact (rounding at the working precision \<open>dps\<close> is outside
  the model). Surrounding blanks are dropped as the library does. Other spellings the
  library accepts (exponents, fractions, infinities) do not occur in the certificates
  considered here and are rejected by \<open>mpf_of_str\<close>.
\<close>

definition digit_of :: "char \<Rightarrow> nat option" where
  "digit_of c = map_of (zip ''0123456789'' [0, 1, 2, 3, 4, 5, 6, 7, 8, 9]) c"

fun digits_val :: "nat \<Rightarrow> string \<Rightarrow> nat option" where
  "digits_val acc [] = Some acc"
| "digits_val acc (c # cs) =
     (case digit_of c of None \<Rightarrow> None | Some d \<Rightarrow> digits_val (10 * acc + d) cs)"

definition is_space :: "char \<Rightarrow> bool" where
  "is_space c \<longleftrightarrow> c \<in> set [CHR '' '', CHR 0x09, CHR 0x0A, CHR 0x0B, CHR 0x0C, CHR 0x0D]"

definition strip :: "string \<Rightarrow> string" where
  "strip s = rev (dropWhile is_space (rev (dropWhile is_space s)))"

definition unsigned_of_str :: "string \<Rightarrow> real option" where
  "unsigned_of_str s =
     (let ip = takeWhile (\<lambda>c. c \<noteq> CHR ''.'') s;
          rest = dropWhile (\<lambda>c. c \<noteq> CHR ''.'') s;
          fp = (case rest of [] \<Rightarrow> [] | _ # r \<Rightarrow> r)
      in if ip @ fp = [] then None
         else (case digits_val 0 (ip @ fp) of
                 None \<Rightarrow> None
               | Some m \<Rightarrow> Some (real m / 10 ^ length fp)))"

definition mpf_of_str :: "string \<Rightarrow> real option" where
  "mpf_of_str s0 =
     (case strip s0 of
        [] \<Rightarrow> None
      | c # cs \<Rightarrow>
          if c = CHR ''-'' then map_option uminus (unsigned_of_str cs)
          else if c = CHR ''+'' then unsigned_of_str cs
          else unsigned_of_str (c # cs))"

subsection \<open>Nested lookup with aliases\<close>

text \<open>
  \<open>dig\<close> walks a path of keys; Python's \<open>None\<close> (a missing key, a non-dict on the way,
  or a stored \<open>null\<close>) is \<open>JNull\<close>.
\<close>

fun dig :: "json \<Rightarrow> string list \<Rightarrow> json" where
  "dig obj [] = obj"
| "dig obj (k # path) =
     (case obj of
        JObj kvs \<Rightarrow> (case map_of kvs k of None \<Rightarrow> JNull | Some v \<Rightarrow> dig v path)
      | _ \<Rightarrow> JNull)"

fun coalesce :: "json \<Rightarrow> string list list \<Rightarrow> string \<Rightarrow> string" where
  "coalesce obj [] dflt = dflt"
| "coalesce obj (p # paths) dflt =
     (let v = dig obj p
      in if v \<noteq> JNull \<and> v \<noteq> JStr [] \<and> v \<noteq> JStr ''null'' then py_str v
         else coalesce obj paths dflt)"

section \<open>Certificate rollup (\<open>uniform_rollup_cert.py\<close>)\<close>

text \<open>\<open>mp_str(x)\<close> parses the text and prints it back at the working precision; the
  model keeps the number.\<close>

definition mp_str :: "string \<Rightarrow> error + real" where
  "mp_str s = (case mpf_of_str s of None \<Rightarrow> Inl (ValueError s) | Some x \<Rightarrow> Inr x)"

definition band_margin_aliases :: "string list list" where
  "band_margin_aliases =
     [[''numbers'', ''band_margin_lo''], [''band_cert'', ''band_margin'', ''lo''],
      [''band_cert'', ''band_margin_lo''], [''numbers'', ''band_margin''],
      [''band_margin'', ''lo''], [''band_margin_lo'']]"

definition prime_block_cap_aliases :: "string list list" where
  "prime_block_cap_aliases =
     [[''prime_block_norm'', ''used_operator_norm''], [''used_operator_norm''],
      [''operator_norm_cap'', ''hi''], [''operator_norm_cap''], [''cap'']]"

definition prime_tail_norm_aliases :: "string list list" where
  "prime_tail_norm_aliases =
     [[''prime_tail'', ''env_T0_hi''], [''prime_tail_envelope'', ''env_T0_hi''],
      [''numbers'', ''prime_tail_norm''], [''env_T0_hi''], [''prime_tail_norm'']]"

definition gamma_env_aliases :: "string list list" where
  "gamma_env_aliases =
     [[''gamma_tails'', ''gamma_env_at_T0''], [''gamma_tail'', ''env_at_T0''],
      [''gamma_env_at_T0''], [''tails_total''], [''numbers'', ''gamma_env_at_T0'']]"

definition grid_error_aliases :: "string list list" where
  "grid_error_aliases =
     [[''grid_error_bound'', ''bound_hi''], [''grid_error_norm''],
      [''numbers'', ''grid_error_norm''], [''hi''], [''lo'']]"

definition read_band_margin :: "json \<Rightarrow> string" where
  "read_band_margin band_json = coalesce band_json band_margin_aliases ''0''"

definition read_prime_block_cap :: "json \<Rightarrow> string" where
  "read_prime_block_cap pblk_json = coalesce pblk_json prime_block_cap_aliases ''0''"

definition read_prime_tail_norm :: "json \<Rightarrow> string" where
  "read_prime_tail_norm pt_json = coalesce pt_json prime_tail_norm_aliases ''0''"

definition read_gamma_env_T0 :: "json \<Rightarrow> string" where
  "read_gamma_env_T0 ga_json = coalesce ga_json gamma_env_aliases ''0''"

text \<open>An optional file that is absent is \<open>None\<close>.\<close>

definition read_grid_error_norm :: "json option \<Rightarrow> string" where
  "read_grid_error_norm grid_json =
     (case grid_json of
        Some (JObj kvs) \<Rightarrow> coalesce (JObj kvs) grid_error_aliases ''0''
      | _ \<Rightarrow> ''0'')"

definition lower_char :: "char \<Rightarrow> char" where
  "lower_char c =
     (case map_of (zip ''ABCDEFGHIJKLMNOPQRSTUVWXYZ'' ''abcdefghijklmnopqrstuvwxyz'') c of
        Some l \<Rightarrow> l
      | None \<Rightarrow> c)"

definition lower :: "string \<Rightarrow> string" where
  "lower s = map lower_char s"

definition psd_aliases :: "string list list" where
  "psd_aliases = [[''PSD_verified''], [''bochner_psd'', ''PSD_verified''], [''weil_psd'', ''PSD_verified'']]"

text \<open>What one alias contributes to \<open>read_psd_pass\<close>: a verdict, or nothing.\<close>

definition psd_flag :: "json \<Rightarrow> bool option" where
  "psd_flag v =
     (case v of
        JBool b \<Rightarrow> Some b
      | JStr s \<Rightarrow> if lower s = ''true'' \<or> lower s = ''false'' then Some (lower s = ''true'') else None
      | _ \<Rightarrow> None)"

fun psd_scan :: "json \<Rightarrow> string list list \<Rightarrow> bool" where
  "psd_scan weil_json [] = True"
| "psd_scan weil_json (p # ps) =
     (case psd_flag (dig weil_json p) of Some b \<Rightarrow> b | None \<Rightarrow> psd_scan weil_json ps)"

definition read_psd_pass :: "json option \<Rightarrow> bool" where
  "read_psd_pass weil_json =
     (case weil_json of
        Some (JObj kvs) \<Rightarrow> psd_scan (JObj kvs) psd_aliases
      | _ \<Rightarrow> True)"

text \<open>
  The certificate files of one run, \<open>None\<close> for a file that does not exist. The
  four first ones are required (\<open>must\<close>); \<open>continuum_operator_cert.json\<close> and
  \<open>weil_explicit_cert.json\<close> are only echoed as paths and play no part in the verdict.
\<close>

record rollup_files =
  band_cert_file :: "json option"
  prime_block_file :: "json option"
  prime_tail_file :: "json option"
  gamma_tail_file :: "json option"
  grid_error_file :: "json option"
  weil_psd_file :: "json option"

record uniform_certificate =
  band_margin :: real
  gamma_env_at_T0 :: real
  epsilon_eff :: real
  prime_block_cap :: real
  prime_tail_norm :: real
  grid_error_norm :: real
  lhs_total :: real
  PSD_verified :: bool
  PASS :: bool

definition must :: "json option \<Rightarrow> string \<Rightarrow> error + json" where
  "must file what = (case file of None \<Rightarrow> Inl (FileNotFoundError what) | Some j \<Rightarrow> Inr j)"

definition uniform_rollup_main :: "rollup_files \<Rightarrow> error + uniform_certificate" where
  "uniform_rollup_main f =
     bind_err (must (band_cert_file f) ''band_cert.json'') (\<lambda>band.
     bind_err (must (prime_block_file f) ''prime_block_norm.json'') (\<lambda>pblk.
     bind_err (must (prime_tail_file f) ''prime_tail_envelope.json'') (\<lambda>pt.
     bind_err (must (gamma_tail_file f) ''gamma_tail.json'') (\<lambda>ga.
     bind_err (mp_str (read_band_margin band)) (\<lambda>bm.
     bind_err (mp_str (read_prime_block_cap pblk)) (\<lambda>pc.
     bind_err (mp_str (read_prime_tail_norm pt)) (\<lambda>ptn.
     bind_err (mp_str (read_gamma_env_T0 ga)) (\<lambda>ge.
     bind_err (mp_str (read_grid_error_norm (grid_error_file f))) (\<lambda>gr.
       (let lhs_total_val = pc + ptn + gr;
            epsilon_eff_val = bm - ge;
            psd_ok = read_psd_pass (weil_psd_file f)
        in Inr \<lparr> band_margin = bm, gamma_env_at_T0 = ge, epsilon_eff = epsilon_eff_val,
                 prime_block_cap = pc, prime_tail_norm = ptn, grid_error_norm = gr,
                 lhs_total = lhs_total_val, PSD_verified = psd_ok,
                 PASS = (psd_ok \<and> lhs_total_val \<le> epsilon_eff_val) \<rparr>))))))))))"

section \<open>Analytic rollup (\<open>rollup_uniform.py\<close>)\<close>








section \<open>Margin verifier (\<open>rolling_T_uniform_cert_v3.py\<close>)\<close>

text \<open>
  The tails \<open>C / T ** a\<close> are evaluated for a left endpoint \<open>T > 0\<close>, where the power
  of the library is the real power \<open>powr\<close>.
\<close>

definition compute_delta_lo ::
  "real \<Rightarrow> real \<Rightarrow> real \<Rightarrow> real \<Rightarrow> real \<Rightarrow> real \<Rightarrow> real \<Rightarrow> real" where
  "compute_delta_lo T_lo eps_eff_lo grid_hi Cp ap Cg ag =
     (let pt_hi = Cp / (T_lo powr ap);
          gt_hi = Cg / (T_lo powr ag)
      in eps_eff_lo - pt_hi - gt_hi - grid_hi)"

text \<open>The arguments that stay fixed during one call of \<open>adaptive_cert\<close>.\<close>

record cert_env =
  env_T0 :: real
  env_eps_eff_lo :: real
  env_grid_hi :: real
  env_Cp :: real
  env_ap :: real
  env_Cg :: real
  env_ag :: real
  env_delta_target :: real
  env_mesh_max :: int

text \<open>
  The local variables of the loop. \<open>work\<close> is the Python list itself: \<open>pop()\<close> takes
  the last element, \<open>append\<close> adds at the end. \<open>global_min = None\<close> is \<open>mp.inf\<close>.
\<close>

record cert_state =
  work :: "(real \<times> real \<times> nat) list"
  total :: int
  max_depth :: nat
  global_min :: "real option"
  argmin_T :: "real option"

record cert_out =
  out_PASS :: bool
  out_global_min :: "real option"
  out_witness :: "(real \<times> real) option"
  out_intervals :: int
  out_max_depth :: nat
  out_argmin_T :: real

text \<open>\<open>argmin_T or a\<close>: \<open>None\<close> and the number zero are both false in Python.\<close>

definition or_else :: "real option \<Rightarrow> real \<Rightarrow> real" where
  "or_else x a = (case x of None \<Rightarrow> a | Some t \<Rightarrow> if t = 0 then a else t)"

definition delta_at :: "cert_env \<Rightarrow> real \<Rightarrow> real" where
  "delta_at e a =
     compute_delta_lo a (env_eps_eff_lo e) (env_grid_hi e) (env_Cp e) (env_ap e) (env_Cg e) (env_ag e)"

definition below_min :: "real \<Rightarrow> real option \<Rightarrow> bool" where
  "below_min d m = (case m of None \<Rightarrow> True | Some g \<Rightarrow> d < g)"

text \<open>
  One test of the loop condition followed, when it holds, by one run of the loop body:
  \<open>Inl\<close> is the state at the next test, \<open>Inr\<close> is what the function returns.
\<close>

definition cert_step :: "cert_env \<Rightarrow> cert_state \<Rightarrow> cert_state + cert_out" where
  "cert_step e s =
     (if work s \<noteq> [] \<and> total s < env_mesh_max e then
        (case last (work s) of (a, b, depth) \<Rightarrow>
           (let work1 = butlast (work s);
                d_lo = delta_at e a;
                gmin = (if below_min d_lo (global_min s) then Some d_lo else global_min s);
                amin = (if below_min d_lo (global_min s) then Some a else argmin_T s);
                total1 = total s + 1;
                depth1 = max (max_depth s) depth
            in if d_lo \<ge> env_delta_target e then
                 Inl \<lparr> work = work1, total = total1, max_depth = depth1,
                       global_min = gmin, argmin_T = amin \<rparr>
               else if total1 \<ge> env_mesh_max e then
                 Inr \<lparr> out_PASS = False, out_global_min = gmin, out_witness = Some (a, b),
                       out_intervals = total1, out_max_depth = depth1,
                       out_argmin_T = or_else amin a \<rparr>
               else
                 (let mid = (a + b) / 2
                  in Inl \<lparr> work = work1 @ [(mid, b, depth + 1), (a, mid, depth + 1)],
                           total = total1, max_depth = depth1,
                           global_min = gmin, argmin_T = amin \<rparr>)))
      else if work s = [] then
        Inr \<lparr> out_PASS = True, out_global_min = global_min s, out_witness = None,
              out_intervals = total s, out_max_depth = max_depth s,
              out_argmin_T = or_else (argmin_T s) (env_T0 e) \<rparr>
      else
        (case last (work s) of (a, b, depth) \<Rightarrow>
           Inr \<lparr> out_PASS = False, out_global_min = global_min s, out_witness = Some (a, b),
                 out_intervals = total s, out_max_depth = max_depth s,
                 out_argmin_T = or_else (argmin_T s) a \<rparr>))"

function cert_loop :: "cert_env \<Rightarrow> cert_state \<Rightarrow> cert_out" where
  "cert_loop e s = (case cert_step e s of Inr r \<Rightarrow> r | Inl s' \<Rightarrow> cert_loop e s')"
  by pat_completeness auto
termination
  by (relation "measure (\<lambda>(e, s). nat (env_mesh_max e - total s))")
     (auto simp: cert_step_def Let_def split: if_splits prod.splits)

text \<open>The state at the \<open>n\<close>-th test of the loop condition, if the loop gets that far.\<close>

fun cert_iter :: "cert_env \<Rightarrow> nat \<Rightarrow> cert_state \<Rightarrow> cert_state option" where
  "cert_iter e 0 s = Some s"
| "cert_iter e (Suc n) s = (case cert_step e s of Inl s' \<Rightarrow> cert_iter e n s' | Inr r \<Rightarrow> None)"

definition mesh_points :: "real \<Rightarrow> real \<Rightarrow> int \<Rightarrow> real list" where
  "mesh_points T0 T1 mesh_initial =
     map (\<lambda>i. T0 + (T1 - T0) * (real i / real_of_int mesh_initial)) [0..<nat (mesh_initial + 1)]"

definition initial_state :: "real \<Rightarrow> real \<Rightarrow> int \<Rightarrow> cert_state" where
  "initial_state T0 T1 mesh_initial =
     (let xs = mesh_points T0 T1 mesh_initial
      in \<lparr> work = map (\<lambda>i. (xs ! i, xs ! (i + 1), 0)) [0..<nat mesh_initial],
            total = 0, max_depth = 0, global_min = None, argmin_T = None \<rparr>)"

definition make_env ::
  "real \<Rightarrow> real \<Rightarrow> real \<Rightarrow> real \<Rightarrow> real \<Rightarrow> real \<Rightarrow> real \<Rightarrow> real \<Rightarrow> int \<Rightarrow> cert_env" where
  "make_env T0 eps_eff_lo grid_hi Cp ap Cg ag delta_target mesh_max =
     \<lparr> env_T0 = T0, env_eps_eff_lo = eps_eff_lo, env_grid_hi = grid_hi, env_Cp = Cp,
       env_ap = ap, env_Cg = Cg, env_ag = ag, env_delta_target = delta_target,
       env_mesh_max = mesh_max \<rparr>"

text \<open>
  \<open>adaptive_cert\<close>. The mesh divides by \<open>mesh_initial\<close>, which raises for zero; for a
  negative \<open>mesh_initial\<close> both ranges are empty.
\<close>

definition adaptive_cert ::
  "real \<Rightarrow> real \<Rightarrow> real \<Rightarrow> real \<Rightarrow> real \<Rightarrow> real \<Rightarrow> real \<Rightarrow> real \<Rightarrow> real \<Rightarrow> int \<Rightarrow> int
     \<Rightarrow> error + cert_out" where
  "adaptive_cert T0 T1 eps_eff_lo grid_hi Cp ap Cg ag delta_target mesh_initial mesh_max =
     (if mesh_initial = 0 then Inl ZeroDivisionError
      else Inr (cert_loop (make_env T0 eps_eff_lo grid_hi Cp ap Cg ag delta_target mesh_max)
                  (initial_state T0 T1 mesh_initial)))"

subsection \<open>Interval-tolerant parsing\<close>






subsection \<open>The command-line tool\<close>


datatype witness =
    Unresolved real real
  | ArgminDegenerate real real real real






definition synth_witness :: "cert_out \<Rightarrow> cert_env \<Rightarrow> witness" where
  "synth_witness r e =
     (case out_witness r of
        Some (a, b) \<Rightarrow> Unresolved a b
      | None \<Rightarrow>
          (let pad = max (\<bar>out_argmin_T r\<bar> * (1 / 10 ^ 12)) 1
           in ArgminDegenerate (out_argmin_T r - pad) (out_argmin_T r + pad) (out_argmin_T r)
                (delta_at e (out_argmin_T r))))"







section \<open>Pivoted Cholesky (\<open>subspace_psd_cholesky.py\<close>)\<close>

text \<open>
  The matrix is a list of rows. The local variables of \<open>pivoted_cholesky_psd\<close> that
  reach its result are the working copy \<open>H\<close>, the residual diagonal \<open>diag\<close>, the factor
  \<open>L\<close>, \<open>min_pivot\<close> (\<open>None\<close> for \<open>mp.inf\<close>) and \<open>rank\<close>; \<open>piv_order\<close> is written but
  never read. Square roots are real square roots.
\<close>

record chol_state =
  cs_H :: "real list list"
  cs_diag :: "real list"
  cs_L :: "real list list"
  cs_min_pivot :: "real option"
  cs_rank :: nat

datatype chol_next = Fail real | Break | Next chol_state

definition mat_set :: "real list list \<Rightarrow> nat \<Rightarrow> nat \<Rightarrow> real \<Rightarrow> real list list" where
  "mat_set M i j v = M[i := (M ! i)[j := v]]"

text \<open>\<open>max(range(k, n), key=lambda i: diag[i])\<close>: the first index of a largest entry.\<close>

definition argmax_from :: "real list \<Rightarrow> nat \<Rightarrow> nat \<Rightarrow> nat" where
  "argmax_from diag k n = fold (\<lambda>i p. if diag ! p < diag ! i then i else p) [Suc k..<n] k"

definition swap_entries :: "'a list \<Rightarrow> nat \<Rightarrow> nat \<Rightarrow> 'a list" where
  "swap_entries xs k p = xs[k := xs ! p, p := xs ! k]"

definition swap_pivot :: "nat \<Rightarrow> nat \<Rightarrow> chol_state \<Rightarrow> chol_state" where
  "swap_pivot k p s =
     s\<lparr> cs_diag := swap_entries (cs_diag s) k p,
        cs_H := map (\<lambda>row. swap_entries row k p) (swap_entries (cs_H s) k p),
        cs_L := swap_entries (cs_L s) k p \<rparr>"

definition elim_inner ::
  "nat \<Rightarrow> nat \<Rightarrow> real \<Rightarrow> real list list \<Rightarrow> real list list \<Rightarrow> real list list" where
  "elim_inner k i lij L H =
     fold (\<lambda>j H. let v = H ! i ! j - lij * (L ! j ! k) in mat_set (mat_set H i j v) j i v)
       [Suc k..<Suc i] H"

definition elim_row ::
  "nat \<Rightarrow> nat \<Rightarrow> real list list \<times> real list \<times> real list list
     \<Rightarrow> real list list \<times> real list \<times> real list list" where
  "elim_row k i hdl =
     (case hdl of (H, diag, L) \<Rightarrow>
        (let lij = (if L ! k ! k \<noteq> 0 then H ! i ! k / (L ! k ! k) else 0);
             L1 = mat_set L i k lij;
             diag1 = diag[i := diag ! i - lij * lij]
         in (elim_inner k i lij L1 H, diag1, L1)))"

text \<open>The diagonal entry the step at \<open>k\<close> selects as its pivot.\<close>

definition pivot_diag :: "nat \<Rightarrow> nat \<Rightarrow> chol_state \<Rightarrow> real" where
  "pivot_diag n k s = cs_diag s ! argmax_from (cs_diag s) k n"

text \<open>One pass through the body of \<open>for k in range(n)\<close>.\<close>

definition chol_step :: "real \<Rightarrow> nat \<Rightarrow> nat \<Rightarrow> chol_state \<Rightarrow> chol_next" where
  "chol_step tol n k s =
     (let p = argmax_from (cs_diag s) k n
      in if cs_diag s ! p < - tol then Fail (cs_diag s ! p)
         else if cs_diag s ! p \<le> tol then Break
         else
           (let s1 = (if p \<noteq> k then swap_pivot k p s else s);
                pivot = sqrt (cs_diag s1 ! k);
                L1 = mat_set (cs_L s1) k k pivot;
                mp = (case cs_min_pivot s1 of None \<Rightarrow> pivot | Some m \<Rightarrow> min m pivot)
            in case fold (elim_row k) [Suc k..<n] (cs_H s1, cs_diag s1, L1) of
                 (H2, diag2, L2) \<Rightarrow>
                   Next \<lparr> cs_H = H2, cs_diag = diag2, cs_L = L2, cs_min_pivot = Some mp,
                          cs_rank = cs_rank s1 + 1 \<rparr>))"

definition chol_finish :: "chol_state \<Rightarrow> bool \<times> real \<times> nat" where
  "chol_finish s = (True, (case cs_min_pivot s of None \<Rightarrow> 0 | Some m \<Rightarrow> m), cs_rank s)"

function chol_loop :: "real \<Rightarrow> nat \<Rightarrow> nat \<Rightarrow> chol_state \<Rightarrow> bool \<times> real \<times> nat" where
  "chol_loop tol n k s =
     (if k < n then
        (case chol_step tol n k s of
           Fail d \<Rightarrow> (False, d, cs_rank s)
         | Break \<Rightarrow> chol_finish s
         | Next s' \<Rightarrow> chol_loop tol n (Suc k) s')
      else chol_finish s)"
  by pat_completeness auto
termination
  by (relation "measure (\<lambda>(tol, n, k, s). n - k)") auto

definition chol_init :: "real list list \<Rightarrow> chol_state" where
  "chol_init H =
     \<lparr> cs_H = H, cs_diag = map (\<lambda>i. H ! i ! i) [0..<length H],
       cs_L = replicate (length H) (replicate (length H) 0),
       cs_min_pivot = None, cs_rank = 0 \<rparr>"

definition pivoted_cholesky_psd :: "real list list \<Rightarrow> real \<Rightarrow> bool \<times> real \<times> nat" where
  "pivoted_cholesky_psd H tol = chol_loop tol (length H) 0 (chol_init H)"

text \<open>The state in which step \<open>k\<close> starts, if the factorization gets that far.\<close>

fun chol_state_at :: "real \<Rightarrow> real list list \<Rightarrow> nat \<Rightarrow> chol_state option" where
  "chol_state_at tol H 0 = Some (chol_init H)"
| "chol_state_at tol H (Suc k) =
     (case chol_state_at tol H k of
        None \<Rightarrow> None
      | Some s \<Rightarrow>
          if k < length H then
            (case chol_step tol (length H) k s of Next s' \<Rightarrow> Some s' | _ \<Rightarrow> None)
          else None)"

section \<open>Interval bound oracle (\<open>band_cert.py\<close>)\<close>

text \<open>
  An interval is the pair of its endpoints. The operations are those of interval
  arithmetic on exact endpoints; the outward rounding of the library, which only
  widens an enclosure, is outside the model. \<open>make_window\<close> rejects \<open>sigma \<le> 0\<close> and
  \<open>k0 \<le> 0\<close>, so an interval is only ever divided by a positive number.
\<close>

type_synonym ivl = "real \<times> real"

definition iv_div_pos :: "ivl \<Rightarrow> real \<Rightarrow> ivl" where
  "iv_div_pos I s = (fst I / s, snd I / s)"

definition iv_square :: "ivl \<Rightarrow> ivl" where
  "iv_square I =
     (if 0 \<le> fst I then (fst I * fst I, snd I * snd I)
      else if snd I \<le> 0 then (snd I * snd I, fst I * fst I)
      else (0, (max (- fst I) (snd I)) * (max (- fst I) (snd I))))"

definition iv_neg :: "ivl \<Rightarrow> ivl" where
  "iv_neg I = (- snd I, - fst I)"

definition iv_exp :: "ivl \<Rightarrow> ivl" where
  "iv_exp I = (exp (fst I), exp (snd I))"

definition iv_rsub :: "real \<Rightarrow> ivl \<Rightarrow> ivl" where
  "iv_rsub c I = (c - snd I, c - fst I)"

definition iv_mul :: "ivl \<Rightarrow> ivl \<Rightarrow> ivl" where
  "iv_mul I J =
     (min (min (fst I * fst J) (fst I * snd J)) (min (snd I * fst J) (snd I * snd J)),
      max (max (fst I * fst J) (fst I * snd J)) (max (snd I * fst J) (snd I * snd J)))"

definition W_abs_iv_on :: "real \<Rightarrow> real \<Rightarrow> real \<Rightarrow> real \<Rightarrow> real \<times> real" where
  "W_abs_iv_on sigma k0 a b =
     (let I = (a, b);
          g = iv_exp (iv_neg (iv_square (iv_div_pos I sigma)));
          n = iv_rsub 1 (iv_exp (iv_neg (iv_square (iv_div_pos I k0))));
          w = iv_mul g n;
          lo = fst w;
          hi = snd w
      in (if lo < 0 then 0 else lo, if hi < 0 then 0 else hi))"

section \<open>Hash-stamped JSON writers\<close>

text \<open>
  Every tool ends by storing a digest under \<open>meta.sha256\<close>. The digest function
  \<open>sha256\<close> and the serializer \<open>dumps\<close> of each tool are library code and enter as
  parameters. A payload is a Python dict; copying it through
  \<open>json.loads(json.dumps(...))\<close> and reading the written file back give the same dict.
  Each writer returns the dict that ends up in the file.
\<close>

type_synonym pydict = "(string \<times> json) list"

definition ensure_meta :: "pydict \<Rightarrow> pydict" where
  "ensure_meta payload =
     (case map_of payload ''meta'' of
        Some (JObj m) \<Rightarrow> payload
      | _ \<Rightarrow> AList.update ''meta'' (JObj []) payload)"

text \<open>\<open>meta.pop("sha256", None)\<close> when \<open>meta\<close> is a dict.\<close>

definition pop_sha256 :: "pydict \<Rightarrow> pydict" where
  "pop_sha256 obj =
     (case map_of obj ''meta'' of
        Some (JObj m) \<Rightarrow> AList.update ''meta'' (JObj (AList.delete ''sha256'' m)) obj
      | _ \<Rightarrow> obj)"

text \<open>\<open>payload["meta"]["sha256"] = digest\<close>.\<close>

definition store_sha256 :: "string \<Rightarrow> pydict \<Rightarrow> error + pydict" where
  "store_sha256 digest payload =
     (case map_of payload ''meta'' of
        None \<Rightarrow> Inl (KeyError ''meta'')
      | Some (JObj m) \<Rightarrow>
          Inr (AList.update ''meta'' (JObj (AList.update ''sha256'' (JStr digest) m)) payload)
      | Some _ \<Rightarrow> Inl TypeError)"

text \<open>\<open>meta.setdefault("dps", dps)\<close> of the rollup's writer.\<close>

definition setdefault_dps :: "int \<Rightarrow> pydict \<Rightarrow> pydict" where
  "setdefault_dps dps payload =
     (case map_of payload ''meta'' of
        Some (JObj m) \<Rightarrow>
          (case map_of m ''dps'' of
             None \<Rightarrow> AList.update ''meta'' (JObj (AList.update ''dps'' (JInt dps) m)) payload
           | Some _ \<Rightarrow> payload)
      | _ \<Rightarrow> payload)"

text \<open>\<open>write_json\<close> of \<open>rolling_T_uniform_cert_v3.py\<close> (and of the tools that copy it):
  the digest is taken with \<open>meta.sha256\<close> removed.\<close>

definition write_json_rolling ::
  "(string \<Rightarrow> string) \<Rightarrow> (json \<Rightarrow> string) \<Rightarrow> pydict \<Rightarrow> error + pydict" where
  "write_json_rolling sha256 dumps payload =
     (let p1 = ensure_meta payload;
          tmp_obj = pop_sha256 p1;
          digest = sha256 (dumps (JObj tmp_obj))
      in store_sha256 digest p1)"

text \<open>\<open>write_json\<close> of \<open>uniform_rollup_cert.py\<close>.\<close>

definition write_json_rollup ::
  "(string \<Rightarrow> string) \<Rightarrow> (json \<Rightarrow> string) \<Rightarrow> pydict \<Rightarrow> int \<Rightarrow> error + pydict" where
  "write_json_rollup sha256 dumps payload dps =
     (let p1 = setdefault_dps dps (ensure_meta payload);
          tmp_obj = pop_sha256 p1;
          digest = sha256 (dumps (JObj tmp_obj))
      in store_sha256 digest p1)"

text \<open>\<open>write_json\<close> of \<open>band_cert.py\<close>: the digest is taken of the object as it is.\<close>

definition write_json_band ::
  "(string \<Rightarrow> string) \<Rightarrow> (json \<Rightarrow> string) \<Rightarrow> pydict \<Rightarrow> error + pydict" where
  "write_json_band sha256 dumps obj =
     (let o1 = ensure_meta obj;
          sha = sha256 (dumps (JObj o1))
      in store_sha256 sha o1)"

text \<open>
  \<open>analytic_bounds.py\<close>: \<open>write_json_with_sha\<close> returns the digest of what it writes,
  and \<open>main\<close> writes twice, the payload first carrying \<open>"sha256": ""\<close>.
\<close>

definition write_json_with_sha :: "(string \<Rightarrow> string) \<Rightarrow> (json \<Rightarrow> string) \<Rightarrow> pydict \<Rightarrow> string" where
  "write_json_with_sha sha256 dumps payload = sha256 (dumps (JObj payload))"

definition analytic_bounds_emit ::
  "(string \<Rightarrow> string) \<Rightarrow> (json \<Rightarrow> string) \<Rightarrow> pydict \<Rightarrow> error + pydict" where
  "analytic_bounds_emit sha256 dumps payload =
     (let sha = write_json_with_sha sha256 dumps payload
      in store_sha256 sha payload)"

text \<open>
  Re-checking a written certificate \<open>w\<close>: the stored digest, the digest recomputed
  with the field removed, and the digest recomputed with the field set to the empty
  string.
\<close>

definition stored_sha256 :: "pydict \<Rightarrow> json" where
  "stored_sha256 w = dig (JObj w) [''meta'', ''sha256'']"

definition rehash_removed :: "(string \<Rightarrow> string) \<Rightarrow> (json \<Rightarrow> string) \<Rightarrow> pydict \<Rightarrow> string" where
  "rehash_removed sha256 dumps w = sha256 (dumps (JObj (pop_sha256 w)))"

definition blank_sha256 :: "pydict \<Rightarrow> pydict" where
  "blank_sha256 w =
     (case map_of w ''meta'' of
        Some (JObj m) \<Rightarrow> AList.update ''meta'' (JObj (AList.update ''sha256'' (JStr []) m)) w
      | _ \<Rightarrow> w)"

definition rehash_blanked :: "(string \<Rightarrow> string) \<Rightarrow> (json \<Rightarrow> string) \<Rightarrow> pydict \<Rightarrow> string" where
  "rehash_blanked sha256 dumps w = sha256 (dumps (JObj (blank_sha256 w)))"


section \<open>Notions used to state the properties\<close>

text \<open>
  A left endpoint is sampled by a run of the loop from \<open>s0\<close> when some test of the loop
  condition succeeds with that endpoint on top of the work list.
\<close>

definition sampled :: "cert_env \<Rightarrow> cert_state \<Rightarrow> real \<Rightarrow> bool" where
  "sampled e s0 a \<longleftrightarrow>
     (\<exists>n s. cert_iter e n s0 = Some s \<and> work s \<noteq> [] \<and> total s < env_mesh_max e \<and>
            fst (last (work s)) = a)"

text \<open>
  The loop invariant for the running minimum over a set \<open>S\<close> of endpoints sampled so
  far, and what it gives for the returned minimum.
\<close>

definition min_inv :: "cert_env \<Rightarrow> real set \<Rightarrow> real option \<Rightarrow> real option \<Rightarrow> bool" where
  "min_inv e S gm am \<longleftrightarrow>
     (case gm of
        None \<Rightarrow> S = {} \<and> am = None
      | Some g \<Rightarrow> (\<exists>a. am = Some a \<and> a \<in> S \<and> delta_at e a = g) \<and> (\<forall>x \<in> S. g \<le> delta_at e x))"

definition res_inv :: "cert_env \<Rightarrow> real set \<Rightarrow> cert_out \<Rightarrow> bool" where
  "res_inv e S r \<longleftrightarrow>
     (case out_global_min r of
        None \<Rightarrow> S = {}
      | Some g \<Rightarrow> (\<exists>a \<in> S. delta_at e a = g \<and> (a \<noteq> 0 \<longrightarrow> out_argmin_T r = a)) \<and>
                  (\<forall>x \<in> S. g \<le> delta_at e x))"

text \<open>
  A Gram matrix as the certifier receives it: \<open>n\<close> rows of \<open>n\<close> entries, symmetric.
\<close>

definition gram_matrix :: "real list list \<Rightarrow> bool" where
  "gram_matrix H \<longleftrightarrow>
     list_all (\<lambda>row. length row = length H) H \<and>
     list_all (\<lambda>i. list_all (\<lambda>j. H ! i ! j = H ! j ! i) [0..<length H]) [0..<length H]"

text \<open>The enclosure of \<open>(x / s)\<^sup>2\<close> for \<open>x\<close> in \<open>[a, b]\<close>, in closed form.\<close>

definition sq_lo :: "real \<Rightarrow> real \<Rightarrow> real \<Rightarrow> real" where
  "sq_lo s a b = (max 0 (max (a / s) (- (b / s))))\<^sup>2"

definition sq_hi :: "real \<Rightarrow> real \<Rightarrow> real \<Rightarrow> real" where
  "sq_hi s a b = (max (- (a / s)) (b / s))\<^sup>2"

text \<open>Whether a payload already carries the key \<open>meta.sha256\<close>.\<close>

definition has_sha256 :: "pydict \<Rightarrow> bool" where
  "has_sha256 obj \<longleftrightarrow>
     (case map_of obj ''meta'' of Some (JObj m) \<Rightarrow> map_of m ''sha256'' \<noteq> None | _ \<Rightarrow> False)"

section \<open>Concrete inputs\<close>

text \<open>A certificate file that carries one decimal string under \<open>block.field\<close>.\<close>

definition num_file :: "string \<Rightarrow> string \<Rightarrow> string \<Rightarrow> json" where
  "num_file block field text = JObj [(block, JObj [(field, JStr text)])]"

text \<open>The rollup inputs of the specification's example; no PSD certificate is present.\<close>

definition rollup_example :: rollup_files where
  "rollup_example =
     \<lparr> band_cert_file = Some (num_file ''numbers'' ''band_margin_lo'' ''0.50''),
       prime_block_file = Some (num_file ''prime_block_norm'' ''used_operator_norm'' ''0.30''),
       prime_tail_file = Some (num_file ''prime_tail'' ''env_T0_hi'' ''0.05''),
       gamma_tail_file = Some (num_file ''gamma_tail'' ''env_at_T0'' ''0.02''),
       grid_error_file = Some (num_file ''grid_error_bound'' ''bound_hi'' ''0.01''),
       weil_psd_file = None \<rparr>"



text \<open>The same inputs with a PSD certificate that carries no verdict at all.\<close>

definition rollup_example_psd_silent :: rollup_files where
  "rollup_example_psd_silent =
     rollup_example\<lparr> weil_psd_file := Some (JObj [(''kind'', JStr ''weil_psd_bochner'')]) \<rparr>"






definition dup_example :: "real list list" where
  "dup_example = [[4, 2], [2, 1]]"

definition indef_example :: "real list list" where
  "indef_example = [[1, 2], [2, 1]]"

text \<open>
  Payloads as the tools build them before writing, and a stand-in for the digest that
  keeps different inputs apart.
\<close>

definition tag_digest :: "string \<Rightarrow> string" where
  "tag_digest blob = ''sha256:'' @ blob"

definition analytic_payload :: pydict where
  "analytic_payload =
     [(''kind'', JStr ''analytic_bounds''),
      (''inputs'', JObj [(''sigma'', JStr ''6.0''), (''A_prime'', JStr ''1.0''), (''K'', JInt 3),
                         (''dps'', JStr ''50'')]),
      (''eps_eff_lo'', JStr ''0.48''),
      (''grid_error_hi'', JStr ''0.01''),
      (''meta'', JObj [(''tool'', JStr ''analytic_bounds''), (''dps'', JStr ''50''),
                       (''created_utc'', JStr ''2025-01-01T00:00:00Z''), (''sha256'', JStr [])])]"

definition band_payload :: pydict where
  "band_payload =
     [(''kind'', JStr ''band_cert''),
      (''numbers'', JObj [(''band_margin_lo'', JStr ''0.50''), (''band_margin_hi'', JStr ''0.51''),
                          (''bands_count'', JInt 1)]),
      (''PASS'', JBool True),
      (''meta'', JObj [(''tool'', JStr ''band_cert''), (''dps'', JInt 50)])]"

definition rolling_payload_json :: pydict where
  "rolling_payload_json =
     [(''kind'', JStr ''rolling_T_uniform''),
      (''result'', JObj [(''PASS'', JBool True), (''delta_min'', JStr ''1.0'')]),
      (''meta'', JObj [(''tool'', JStr ''rolling_T_uniform_cert_v3''), (''dps'', JInt 50),
                       (''created_utc'', JStr ''2025-01-01T00:00:00Z'')])]"

section \<open>Properties of the certificate rollup\<close>

lemmas parse_eval =
  digit_of_def mpf_of_str_def unsigned_of_str_def strip_def is_space_def mp_str_def py_str_def

lemmas rollup_eval =
  uniform_rollup_main_def bind_err_def must_def read_band_margin_def read_prime_block_cap_def
  read_prime_tail_norm_def read_gamma_env_T0_def read_grid_error_norm_def read_psd_pass_def
  band_margin_aliases_def prime_block_cap_aliases_def prime_tail_norm_aliases_def
  gamma_env_aliases_def grid_error_aliases_def psd_aliases_def psd_flag_def num_file_def

lemma rollup_example_run:
  "uniform_rollup_main rollup_example =
     Inr \<lparr> band_margin = 50 / 100, gamma_env_at_T0 = 2 / 100, epsilon_eff = 48 / 100,
           prime_block_cap = 30 / 100, prime_tail_norm = 5 / 100, grid_error_norm = 1 / 100,
           lhs_total = 36 / 100, PSD_verified = True, PASS = True \<rparr>"
  by (simp add: rollup_example_def rollup_eval parse_eval)



lemma rollup_example_psd_silent_run:
  "uniform_rollup_main rollup_example_psd_silent =
     Inr \<lparr> band_margin = 50 / 100, gamma_env_at_T0 = 2 / 100, epsilon_eff = 48 / 100,
           prime_block_cap = 30 / 100, prime_tail_norm = 5 / 100, grid_error_norm = 1 / 100,
           lhs_total = 36 / 100, PSD_verified = True, PASS = True \<rparr>"
  by (simp add: rollup_example_psd_silent_def rollup_example_def rollup_eval parse_eval)


lemma rollup_main_fields:
  assumes "uniform_rollup_main f = Inr c"
  shows "PASS c \<longleftrightarrow> PSD_verified c \<and> lhs_total c \<le> epsilon_eff c"
    and "lhs_total c = prime_block_cap c + prime_tail_norm c + grid_error_norm c"
    and "epsilon_eff c = band_margin c - gamma_env_at_T0 c"
    and "PSD_verified c = read_psd_pass (weil_psd_file f)"
  using assms
  by (auto simp: uniform_rollup_main_def bind_err_def Let_def split: sum.splits)

lemma psd_scan_silent:
  "(\<forall>p \<in> set ps. psd_flag (dig j p) = None) \<Longrightarrow> psd_scan j ps"
  by (induction ps) auto

lemma read_psd_pass_silent:
  assumes "\<forall>p \<in> set psd_aliases. psd_flag (dig j p) = None"
  shows "read_psd_pass (Some j)"
proof (cases j)
  case (JObj kvs)
  with assms show ?thesis by (simp add: read_psd_pass_def psd_scan_silent)
qed (simp_all add: read_psd_pass_def)


lemma must_missing:
  "must None what = Inl (FileNotFoundError what)"
  by (simp add: must_def)




text \<open>
  Claim C8: \<open>read_psd_pass\<close> answers \<open>True\<close> when the PSD certificate file is absent
  and when it is present without a boolean or a \<open>"true"\<close>/\<open>"false"\<close> string under any of
  its aliases; the certificate then reports \<open>PSD_verified = true\<close> and the verdict is
  decided by the inequality alone, so that a run with no PSD evidence can end in
  \<open>PASS\<close>, as the example inputs do.
\<close>

theorem psd_missing_evidence_passes:
  "((weil_psd_file f = None \<or>
     (\<exists>j. weil_psd_file f = Some j \<and> (\<forall>p \<in> set psd_aliases. psd_flag (dig j p) = None))) \<longrightarrow>
      read_psd_pass (weil_psd_file f) \<and>
      (\<forall>c. uniform_rollup_main f = Inr c \<longrightarrow>
            PSD_verified c \<and> (PASS c \<longleftrightarrow> lhs_total c \<le> epsilon_eff c))) \<and>
   (weil_psd_file rollup_example = None \<and>
    (\<exists>c. uniform_rollup_main rollup_example = Inr c \<and> PSD_verified c \<and> PASS c))"
proof -
  have silent: "read_psd_pass (weil_psd_file f)"
    if "weil_psd_file f = None \<or>
        (\<exists>j. weil_psd_file f = Some j \<and> (\<forall>p \<in> set psd_aliases. psd_flag (dig j p) = None))"
    using that by (auto simp: read_psd_pass_silent) (simp add: read_psd_pass_def)
  have "weil_psd_file rollup_example = None"
    by (simp add: rollup_example_def)
  moreover have "\<exists>c. uniform_rollup_main rollup_example = Inr c \<and> PSD_verified c \<and> PASS c"
    by (simp add: rollup_example_run)
  ultimately show ?thesis
    using silent rollup_main_fields(1,4) [of f] by auto
qed

theorem psd_missing_evidence_passes_witness:
  "weil_psd_file rollup_example_psd_silent = Some (JObj [(''kind'', JStr ''weil_psd_bochner'')]) \<and>
   list_all (\<lambda>p. psd_flag (dig (JObj [(''kind'', JStr ''weil_psd_bochner'')]) p) = None) psd_aliases \<and>
   read_psd_pass (weil_psd_file rollup_example_psd_silent) \<and>
   (\<exists>c. uniform_rollup_main rollup_example_psd_silent = Inr c \<and> PSD_verified c \<and> PASS c \<and>
        lhs_total c \<le> epsilon_eff c)"
proof -
  have fileval: "weil_psd_file rollup_example_psd_silent = Some (JObj [(''kind'', JStr ''weil_psd_bochner'')])"
    by (simp add: rollup_example_psd_silent_def rollup_example_def)
  have silent: "\<forall>p \<in> set psd_aliases. psd_flag (dig (JObj [(''kind'', JStr ''weil_psd_bochner'')]) p) = None"
    by (simp add: psd_aliases_def psd_flag_def)
  from psd_missing_evidence_passes [of rollup_example_psd_silent] fileval silent
  have "read_psd_pass (weil_psd_file rollup_example_psd_silent)"
    and "\<forall>c. uniform_rollup_main rollup_example_psd_silent = Inr c \<longrightarrow>
            PSD_verified c \<and> (PASS c \<longleftrightarrow> lhs_total c \<le> epsilon_eff c)"
    by auto
  with fileval silent show ?thesis
    by (simp add: rollup_example_psd_silent_run list_all_iff)
qed







section \<open>Properties of the margin verifier\<close>

declare cert_loop.simps [simp del]

lemma cert_loop_Inl: "cert_step e s = Inl s' \<Longrightarrow> cert_loop e s = cert_loop e s'"
  by (subst cert_loop.simps) simp

lemma cert_loop_Inr: "cert_step e s = Inr r \<Longrightarrow> cert_loop e s = r"
  by (subst cert_loop.simps) simp

lemma synthetic_margin: "0 < T \<Longrightarrow> compute_delta_lo T 0 0 (- 1) 1 0 1 = 1 / T"
  by (simp add: compute_delta_lo_def)

lemma initial_state_single:
  "initial_state 1 10 1 =
     \<lparr> work = [(1, 10, 0)], total = 0, max_depth = 0, global_min = None, argmin_T = None \<rparr>"
  by (simp add: initial_state_def mesh_points_def Let_def)

lemma synthetic_run:
  assumes "target \<le> 1" and "1 \<le> mesh_max"
  shows "adaptive_cert 1 10 0 0 (- 1) 1 0 1 target 1 mesh_max =
           Inr \<lparr> out_PASS = True, out_global_min = Some 1, out_witness = None,
                 out_intervals = 1, out_max_depth = 0, out_argmin_T = 1 \<rparr>"
proof -
  let ?e = "make_env 1 0 0 (- 1) 1 0 1 target mesh_max"
  let ?s1 = "\<lparr> work = [], total = 1, max_depth = 0, global_min = Some 1, argmin_T = Some 1 \<rparr>"
  have d: "delta_at ?e 1 = 1"
    by (simp add: delta_at_def make_env_def compute_delta_lo_def)
  have s1: "cert_step ?e (initial_state 1 10 1) = Inl ?s1"
    using assms
    by (simp add: initial_state_single cert_step_def d below_min_def Let_def)
       (simp add: make_env_def)
  have s2: "cert_step ?e ?s1 =
              Inr \<lparr> out_PASS = True, out_global_min = Some 1, out_witness = None,
                    out_intervals = 1, out_max_depth = 0, out_argmin_T = 1 \<rparr>"
    by (simp add: cert_step_def or_else_def)
  show ?thesis
    by (simp add: adaptive_cert_def cert_loop_Inl [OF s1] cert_loop_Inr [OF s2])
qed

subsection \<open>Structure of a run\<close>

lemma cert_step_Inl_cond:
  "cert_step e s = Inl s' \<Longrightarrow> work s \<noteq> [] \<and> total s < env_mesh_max e \<and> total s' = total s + 1"
  by (auto simp: cert_step_def Let_def split: if_splits prod.splits)

lemma cert_step_Inr_pass: "cert_step e s = Inr r \<Longrightarrow> out_PASS r \<longleftrightarrow> work s = []"
  by (auto simp: cert_step_def Let_def split: if_splits prod.splits)

lemma cert_iter_loop: "cert_iter e n s = Some s' \<Longrightarrow> cert_loop e s = cert_loop e s'"
  by (induction n arbitrary: s) (auto split: sum.splits simp: cert_loop_Inl)

lemma cert_iter_total:
  "cert_iter e n s = Some s' \<Longrightarrow>
     total s' = total s + int n \<and> (0 < n \<longrightarrow> total s' \<le> env_mesh_max e)"
proof (induction n arbitrary: s)
  case 0
  then show ?case by simp
next
  case (Suc n)
  then obtain s1 where s1: "cert_step e s = Inl s1" and it: "cert_iter e n s1 = Some s'"
    by (auto split: sum.splits)
  from Suc.IH [OF it] cert_step_Inl_cond [OF s1] it show ?case
    by (cases n) auto
qed

lemma cert_loop_final:
  "\<exists>n s'. cert_iter e n s = Some s' \<and> cert_step e s' = Inr (cert_loop e s)"
proof (induction e s rule: cert_loop.induct)
  case (1 e s)
  show ?case
  proof (cases "cert_step e s")
    case (Inl s1)
    from 1 [OF Inl] obtain n s' where
      "cert_iter e n s1 = Some s'" "cert_step e s' = Inr (cert_loop e s1)" by blast
    then have "cert_iter e (Suc n) s = Some s' \<and> cert_step e s' = Inr (cert_loop e s)"
      using Inl by (simp add: cert_loop_Inl)
    then show ?thesis by blast
  next
    case (Inr r)
    then have "cert_iter e 0 s = Some s \<and> cert_step e s = Inr (cert_loop e s)"
      by (simp add: cert_loop_Inr)
    then show ?thesis by blast
  qed
qed

lemma cert_iter_after_final:
  "cert_iter e n s = Some s' \<Longrightarrow> cert_step e s' = Inr r \<Longrightarrow> cert_iter e m s = Some s'' \<Longrightarrow> m \<le> n"
proof (induction n arbitrary: s m)
  case 0
  then show ?case by (cases m) auto
next
  case (Suc n)
  then obtain s1 where s1: "cert_step e s = Inl s1" and it: "cert_iter e n s1 = Some s'"
    by (auto split: sum.splits)
  show ?case
  proof (cases m)
    case 0
    then show ?thesis by simp
  next
    case (Suc k)
    with Suc.prems(3) s1 have "cert_iter e k s1 = Some s''" by simp
    from Suc.IH [OF it Suc.prems(2) this] Suc show ?thesis by simp
  qed
qed

lemma cert_loop_pass_iff:
  "out_PASS (cert_loop e s) \<longleftrightarrow> (\<exists>n s'. cert_iter e n s = Some s' \<and> work s' = [])"
proof
  assume pass: "out_PASS (cert_loop e s)"
  obtain n s' where it: "cert_iter e n s = Some s'" and fin: "cert_step e s' = Inr (cert_loop e s)"
    using cert_loop_final by blast
  from cert_step_Inr_pass [OF fin] pass have "work s' = []" by simp
  with it show "\<exists>n s'. cert_iter e n s = Some s' \<and> work s' = []" by blast
next
  assume "\<exists>n s'. cert_iter e n s = Some s' \<and> work s' = []"
  then obtain n s' where it: "cert_iter e n s = Some s'" and emp: "work s' = []" by blast
  from emp obtain r where fin: "cert_step e s' = Inr r" and "out_PASS r"
    by (simp add: cert_step_def)
  then show "out_PASS (cert_loop e s)"
    using cert_iter_loop [OF it] by (simp add: cert_loop_Inr)
qed


subsection \<open>Failure\<close>

lemma cert_step_Inr_fail:
  assumes "cert_step e s = Inr r" and "\<not> out_PASS r"
  shows "work s \<noteq> [] \<and> out_witness r = Some (fst (last (work s)), fst (snd (last (work s)))) \<and>
         env_mesh_max e \<le> out_intervals r \<and>
         (total s < env_mesh_max e \<longrightarrow>
            delta_at e (fst (last (work s))) < env_delta_target e \<and> out_intervals r = total s + 1) \<and>
         (\<not> total s < env_mesh_max e \<longrightarrow> out_intervals r = total s)"
  using assms
  by (auto simp: cert_step_def Let_def split: if_splits prod.splits)

lemma cert_step_Inr_pass_out:
  assumes "cert_step e s = Inr r" and "out_PASS r"
  shows "out_witness r = None \<and> out_intervals r = total s"
  using assms
  by (auto simp: cert_step_def Let_def split: if_splits prod.splits)

subsection \<open>Global minimum\<close>

lemma min_inv_sample:
  assumes "min_inv e S gm am"
  shows "min_inv e (insert a S)
           (if below_min (delta_at e a) gm then Some (delta_at e a) else gm)
           (if below_min (delta_at e a) gm then Some a else am)"
  using assms
  by (cases gm) (auto simp: min_inv_def below_min_def)

lemma cert_step_Inl_min:
  assumes "cert_step e s = Inl s1" and "min_inv e S (global_min s) (argmin_T s)"
  shows "min_inv e (insert (fst (last (work s))) S) (global_min s1) (argmin_T s1)"
proof -
  obtain a b d where l: "last (work s) = (a, b, d)" by (cases "last (work s)") auto
  have "global_min s1 = (if below_min (delta_at e a) (global_min s) then Some (delta_at e a) else global_min s) \<and>
        argmin_T s1 = (if below_min (delta_at e a) (global_min s) then Some a else argmin_T s)"
    using assms(1) l by (auto simp: cert_step_def Let_def split: if_splits)
  with min_inv_sample [OF assms(2), of a] l show ?thesis by simp
qed

lemma sampled_Inl:
  assumes "cert_step e s = Inl s1"
  shows "sampled e s x \<longleftrightarrow> x = fst (last (work s)) \<or> sampled e s1 x"
proof
  assume "sampled e s x"
  then obtain n s' where it: "cert_iter e n s = Some s'" and c: "work s' \<noteq> []"
    "total s' < env_mesh_max e" "fst (last (work s')) = x"
    by (auto simp: sampled_def)
  show "x = fst (last (work s)) \<or> sampled e s1 x"
  proof (cases n)
    case 0
    with it c show ?thesis by simp
  next
    case (Suc k)
    with it assms have "cert_iter e k s1 = Some s'" by simp
    with c show ?thesis by (auto simp: sampled_def)
  qed
next
  assume "x = fst (last (work s)) \<or> sampled e s1 x"
  then show "sampled e s x"
  proof
    assume "x = fst (last (work s))"
    moreover have "cert_iter e 0 s = Some s" by simp
    ultimately show ?thesis
      using cert_step_Inl_cond [OF assms] unfolding sampled_def by blast
  next
    assume "sampled e s1 x"
    then obtain n s' where "cert_iter e n s1 = Some s'" and c: "work s' \<noteq> []"
      "total s' < env_mesh_max e" "fst (last (work s')) = x"
      by (auto simp: sampled_def)
    then have "cert_iter e (Suc n) s = Some s'" using assms by simp
    with c show ?thesis unfolding sampled_def by blast
  qed
qed

lemma sampled_Inr:
  assumes "cert_step e s = Inr r"
  shows "sampled e s x \<longleftrightarrow> work s \<noteq> [] \<and> total s < env_mesh_max e \<and> x = fst (last (work s))"
proof
  assume "sampled e s x"
  then obtain n s' where it: "cert_iter e n s = Some s'" and c: "work s' \<noteq> []"
    "total s' < env_mesh_max e" "fst (last (work s')) = x"
    by (auto simp: sampled_def)
  from it assms have "n = 0" by (cases n) auto
  with it c show "work s \<noteq> [] \<and> total s < env_mesh_max e \<and> x = fst (last (work s))" by auto
next
  assume "work s \<noteq> [] \<and> total s < env_mesh_max e \<and> x = fst (last (work s))"
  moreover have "cert_iter e 0 s = Some s" by simp
  ultimately show "sampled e s x" unfolding sampled_def by blast
qed

lemma cert_step_Inr_min:
  assumes "cert_step e s = Inr r" and "min_inv e S (global_min s) (argmin_T s)"
  shows "res_inv e (S \<union> {x. sampled e s x}) r"
proof (cases "work s \<noteq> [] \<and> total s < env_mesh_max e")
  case True
  obtain a b d where l: "last (work s) = (a, b, d)" by (cases "last (work s)") auto
  have sam: "{x. sampled e s x} = {a}"
    using True l by (auto simp: sampled_Inr [OF assms(1)])
  let ?gm = "if below_min (delta_at e a) (global_min s) then Some (delta_at e a) else global_min s"
  let ?am = "if below_min (delta_at e a) (global_min s) then Some a else argmin_T s"
  have out: "out_global_min r = ?gm \<and> out_argmin_T r = or_else ?am a"
    using assms(1) True l by (auto simp: cert_step_def Let_def split: if_splits)
  have "min_inv e (insert a S) ?gm ?am" by (rule min_inv_sample [OF assms(2)])
  then show ?thesis
    unfolding res_inv_def sam using out
    by (cases ?gm) (auto simp: min_inv_def or_else_def split: option.splits if_splits)
next
  case False
  have sam: "{x. sampled e s x} = {}"
    using False by (auto simp: sampled_Inr [OF assms(1)])
  have out: "out_global_min r = global_min s \<and>
             (\<exists>x. out_argmin_T r = or_else (argmin_T s) x)"
    using assms(1) False by (auto simp: cert_step_def Let_def split: if_splits prod.splits)
  with assms(2) show ?thesis
    unfolding res_inv_def sam
    by (cases "global_min s") (auto simp: min_inv_def or_else_def)
qed

lemma cert_loop_min:
  "min_inv e S (global_min s) (argmin_T s) \<Longrightarrow> res_inv e (S \<union> {x. sampled e s x}) (cert_loop e s)"
proof (induction e s arbitrary: S rule: cert_loop.induct)
  case (1 e s)
  show ?case
  proof (cases "cert_step e s")
    case (Inl s1)
    have "S \<union> {x. sampled e s x} = insert (fst (last (work s))) S \<union> {x. sampled e s1 x}"
      by (auto simp: sampled_Inl [OF Inl])
    with "1.IH" [OF Inl cert_step_Inl_min [OF Inl "1.prems"]] show ?thesis
      by (simp add: cert_loop_Inl [OF Inl])
  next
    case (Inr r)
    with cert_step_Inr_min [OF Inr "1.prems"] show ?thesis
      by (simp add: cert_loop_Inr)
  qed
qed


subsection \<open>Positive endpoints\<close>

lemma cert_step_Inl_work:
  assumes "cert_step e s = Inl s1" and "last (work s) = (a, b, d)"
  shows "work s1 =
           (if delta_at e a \<ge> env_delta_target e then butlast (work s)
            else butlast (work s) @ [((a + b) / 2, b, d + 1), (a, (a + b) / 2, d + 1)])"
  using assms
  by (simp add: cert_step_def Let_def split: if_splits) auto

lemma cert_step_pos:
  assumes "cert_step e s = Inl s1" and "\<forall>x \<in> set (work s). 0 < fst x \<and> 0 < fst (snd x)"
  shows "\<forall>x \<in> set (work s1). 0 < fst x \<and> 0 < fst (snd x)"
proof -
  obtain a b d where l: "last (work s) = (a, b, d)" by (cases "last (work s)") auto
  have ne: "work s \<noteq> []" using cert_step_Inl_cond [OF assms(1)] by simp
  then have "(a, b, d) \<in> set (work s)" using l last_in_set [of "work s"] by simp
  with assms(2) have ab: "0 < a" "0 < b" by auto
  have sub: "\<forall>x \<in> set (butlast (work s)). 0 < fst x \<and> 0 < fst (snd x)"
    using assms(2) by (blast dest: in_set_butlastD)
  show ?thesis
  proof (cases "delta_at e a \<ge> env_delta_target e")
    case True
    with cert_step_Inl_work [OF assms(1) l] sub show ?thesis by simp
  next
    case False
    with cert_step_Inl_work [OF assms(1) l] sub ab show ?thesis by simp
  qed
qed

lemma cert_iter_pos:
  "cert_iter e n s = Some s' \<Longrightarrow> \<forall>x \<in> set (work s). 0 < fst x \<and> 0 < fst (snd x) \<Longrightarrow>
     \<forall>x \<in> set (work s'). 0 < fst x \<and> 0 < fst (snd x)"
proof (induction n arbitrary: s)
  case 0
  then show ?case by simp
next
  case (Suc n)
  from Suc.prems(1) obtain s1 where s1: "cert_step e s = Inl s1" and it: "cert_iter e n s1 = Some s'"
    by (auto split: sum.splits)
  from Suc.IH [OF it cert_step_pos [OF s1 Suc.prems(2)]] show ?case .
qed

lemma sampled_pos:
  assumes "sampled e s x" and "\<forall>x \<in> set (work s). 0 < fst x \<and> 0 < fst (snd x)"
  shows "0 < x"
proof -
  from assms(1) obtain n s' where it: "cert_iter e n s = Some s'" and ne: "work s' \<noteq> []"
    and x: "fst (last (work s')) = x"
    by (auto simp: sampled_def)
  from ne have "last (work s') \<in> set (work s')" by simp
  with cert_iter_pos [OF it assms(2)] have "0 < fst (last (work s'))" by blast
  with x show ?thesis by simp
qed

lemma initial_state_pos:
  assumes "0 < T0" and "T0 \<le> T1"
  shows "\<forall>x \<in> set (work (initial_state T0 T1 m)). 0 < fst x \<and> 0 < fst (snd x)"
proof -
  have pt: "0 < mesh_points T0 T1 m ! i" if "i < nat (m + 1)" for i
  proof -
    have "0 \<le> (T1 - T0) * (real i / real_of_int m)"
      using that assms(2) by (intro mult_nonneg_nonneg) auto
    with assms(1) that show ?thesis by (simp add: mesh_points_def)
  qed
  show ?thesis
    by (auto simp: initial_state_def Let_def intro!: pt)
qed

subsection \<open>Witness synthesis\<close>

lemma synth_witness_pass:
  assumes "out_witness r = None"
  shows "synth_witness r e =
           ArgminDegenerate (out_argmin_T r - max (\<bar>out_argmin_T r\<bar> / 10 ^ 12) 1)
             (out_argmin_T r + max (\<bar>out_argmin_T r\<bar> / 10 ^ 12) 1) (out_argmin_T r)
             (delta_at e (out_argmin_T r))"
  using assms by (simp add: synth_witness_def Let_def)

lemma synth_witness_fail:
  assumes "out_witness r = Some (a, b)"
  shows "synth_witness r e = Unresolved a b"
  using assms by (simp add: synth_witness_def)

text \<open>
  Claim C5: \<open>adaptive_cert\<close> returns \<open>PASS = true\<close> exactly when the work list is
  found empty at a test of the loop condition, after a number of processed intervals
  within the budget \<open>mesh_max\<close>; then it returns no witness and \<open>main\<close> synthesizes the
  window \<open>[argmin - pad, argmin + pad]\<close> with \<open>pad = max(|argmin| * 1e-12, 1)\<close> around the
  returned argmin. Otherwise the budget is exhausted (\<open>mesh_max \<le> intervals\<close>) and the
  returned witness \<open>(T_left, T_right)\<close> is the interval on top of the work list, left
  unresolved: either never sampled, or sampled with \<open>\<delta>_lo(T_left) < target\<close>. The
  returned global minimum is the least value of \<open>\<delta>_lo\<close> over the sampled left
  endpoints (\<open>mp.inf\<close> when none was sampled), and the returned argmin is a sampled
  endpoint where it is attained. The domain is \<open>0 < T0 < T1\<close>.
\<close>

theorem adaptive_cert_protocol:
  assumes run: "adaptive_cert T0 T1 eps_eff_lo grid_hi Cp ap Cg ag delta_target mesh_initial mesh_max = Inr r"
    and e: "e = make_env T0 eps_eff_lo grid_hi Cp ap Cg ag delta_target mesh_max"
    and s0: "s0 = initial_state T0 T1 mesh_initial"
    and dom: "0 < T0" "T0 < T1"
  shows
   "(out_PASS r \<longleftrightarrow>
       (\<exists>n s. cert_iter e n s0 = Some s \<and> work s = [] \<and> total s = int n \<and> int n \<le> max 0 mesh_max)) \<and>
    (out_PASS r \<longrightarrow>
       out_witness r = None \<and>
       synth_witness r e =
         ArgminDegenerate (out_argmin_T r - max (\<bar>out_argmin_T r\<bar> / 10 ^ 12) 1)
           (out_argmin_T r + max (\<bar>out_argmin_T r\<bar> / 10 ^ 12) 1) (out_argmin_T r)
           (delta_at e (out_argmin_T r))) \<and>
    (\<not> out_PASS r \<longrightarrow>
       (\<exists>n s a b d. cert_iter e n s0 = Some s \<and> work s \<noteq> [] \<and> last (work s) = (a, b, d) \<and>
                    out_witness r = Some (a, b) \<and> synth_witness r e = Unresolved a b \<and>
                    mesh_max \<le> out_intervals r \<and>
                    (total s < mesh_max \<longrightarrow> delta_at e a < delta_target))) \<and>
    (out_global_min r = None \<longleftrightarrow> (\<forall>a. \<not> sampled e s0 a)) \<and>
    (\<forall>g. out_global_min r = Some g \<longrightarrow>
         (\<exists>a. sampled e s0 a \<and> delta_at e a = g) \<and> (\<forall>a. sampled e s0 a \<longrightarrow> g \<le> delta_at e a)) \<and>
    (\<forall>g. out_global_min r = Some g \<longrightarrow>
         sampled e s0 (out_argmin_T r) \<and> delta_at e (out_argmin_T r) = g)"
proof -
  have r: "r = cert_loop e s0"
    using run by (auto simp: adaptive_cert_def e s0 split: if_splits)
  have mm: "env_mesh_max e = mesh_max" and tg: "env_delta_target e = delta_target"
    by (simp_all add: e make_env_def)
  have init: "total s0 = 0" "global_min s0 = None" "argmin_T s0 = None"
    by (simp_all add: s0 initial_state_def Let_def)
  obtain nf sf where itf: "cert_iter e nf s0 = Some sf" and fin: "cert_step e sf = Inr r"
    using cert_loop_final [of e s0] r by auto
  have p1: "out_PASS r \<longleftrightarrow>
       (\<exists>n s. cert_iter e n s0 = Some s \<and> work s = [] \<and> total s = int n \<and> int n \<le> max 0 mesh_max)"
  proof
    assume "out_PASS r"
    then obtain n s where it: "cert_iter e n s0 = Some s" and emp: "work s = []"
      using cert_loop_pass_iff [of e s0] r by auto
    from cert_iter_total [OF it] init mm have "total s = int n \<and> int n \<le> max 0 mesh_max"
      by (cases n) auto
    with it emp show "\<exists>n s. cert_iter e n s0 = Some s \<and> work s = [] \<and> total s = int n \<and> int n \<le> max 0 mesh_max"
      by blast
  next
    assume "\<exists>n s. cert_iter e n s0 = Some s \<and> work s = [] \<and> total s = int n \<and> int n \<le> max 0 mesh_max"
    then show "out_PASS r" using cert_loop_pass_iff [of e s0] r by auto
  qed
  have p2: "out_witness r = None \<and>
       synth_witness r e =
         ArgminDegenerate (out_argmin_T r - max (\<bar>out_argmin_T r\<bar> / 10 ^ 12) 1)
           (out_argmin_T r + max (\<bar>out_argmin_T r\<bar> / 10 ^ 12) 1) (out_argmin_T r)
           (delta_at e (out_argmin_T r))" if "out_PASS r"
    using cert_step_Inr_pass_out [OF fin that] synth_witness_pass [of r e] by simp
  have p3: "\<exists>n s a b d. cert_iter e n s0 = Some s \<and> work s \<noteq> [] \<and> last (work s) = (a, b, d) \<and>
                    out_witness r = Some (a, b) \<and> synth_witness r e = Unresolved a b \<and>
                    mesh_max \<le> out_intervals r \<and>
                    (total s < mesh_max \<longrightarrow> delta_at e a < delta_target)" if "\<not> out_PASS r"
  proof -
    obtain a b d where l: "last (work sf) = (a, b, d)" by (cases "last (work sf)") auto
    from cert_step_Inr_fail [OF fin that] l mm tg
    have "work sf \<noteq> [] \<and> out_witness r = Some (a, b) \<and> mesh_max \<le> out_intervals r \<and>
          (total sf < mesh_max \<longrightarrow> delta_at e a < delta_target)"
      by simp
    with itf l synth_witness_fail [of r a b e] show ?thesis by blast
  qed
  have inv: "res_inv e {x. sampled e s0 x} r"
    using cert_loop_min [of e "{}" s0] init r by (simp add: min_inv_def)
  have p4: "out_global_min r = None \<longleftrightarrow> (\<forall>a. \<not> sampled e s0 a)"
    using inv by (auto simp: res_inv_def split: option.splits)
  have p5: "(\<exists>a. sampled e s0 a \<and> delta_at e a = g) \<and> (\<forall>a. sampled e s0 a \<longrightarrow> g \<le> delta_at e a)"
    if "out_global_min r = Some g" for g
    using inv that by (auto simp: res_inv_def)
  have p6: "sampled e s0 (out_argmin_T r) \<and> delta_at e (out_argmin_T r) = g"
    if "out_global_min r = Some g" for g
  proof -
    have pos: "\<forall>x \<in> set (work s0). 0 < fst x \<and> 0 < fst (snd x)"
      unfolding s0 using dom by (intro initial_state_pos) auto
    from inv that obtain a where a: "sampled e s0 a" "delta_at e a = g"
      "a \<noteq> 0 \<longrightarrow> out_argmin_T r = a"
      by (auto simp: res_inv_def)
    from sampled_pos [OF a(1) pos] a show ?thesis by simp
  qed
  show ?thesis
  proof (intro conjI)
    show "out_PASS r \<longleftrightarrow>
       (\<exists>n s. cert_iter e n s0 = Some s \<and> work s = [] \<and> total s = int n \<and> int n \<le> max 0 mesh_max)"
      by (rule p1)
  qed (use p2 p3 p4 p5 p6 in blast)+
qed


lemma initial_state_one:
  "initial_state T0 T1 1 =
     \<lparr> work = [(T0, T1, 0)], total = 0, max_depth = 0, global_min = None, argmin_T = None \<rparr>"
  by (simp add: initial_state_def mesh_points_def Let_def)

lemma synthetic_fail_run:
  "adaptive_cert 1 10 0 0 (- 1) 1 0 1 2 1 2 =
     Inr \<lparr> out_PASS = False, out_global_min = Some 1, out_witness = Some (1, 11 / 2),
           out_intervals = 2, out_max_depth = 1, out_argmin_T = 1 \<rparr>"
proof -
  let ?e = "make_env 1 0 0 (- 1) 1 0 1 2 2"
  let ?s1 = "\<lparr> work = [(11 / 2, 10, 1), (1, 11 / 2, 1)], total = 1, max_depth = 0,
               global_min = Some 1, argmin_T = Some 1 \<rparr>"
  have d: "delta_at ?e 1 = 1"
    by (simp add: delta_at_def make_env_def compute_delta_lo_def)
  have tm: "env_delta_target ?e = 2" "env_mesh_max ?e = 2"
    by (simp_all add: make_env_def)
  have s1: "cert_step ?e (initial_state 1 10 1) = Inl ?s1"
    by (simp add: initial_state_one cert_step_def d tm below_min_def Let_def)
  have s2: "cert_step ?e ?s1 =
              Inr \<lparr> out_PASS = False, out_global_min = Some 1, out_witness = Some (1, 11 / 2),
                    out_intervals = 2, out_max_depth = 1, out_argmin_T = 1 \<rparr>"
    by (simp add: cert_step_def d tm below_min_def Let_def or_else_def)
  have "cert_loop ?e (initial_state 1 10 1) = cert_loop ?e ?s1"
    by (rule cert_loop_Inl [OF s1])
  also have "\<dots> = \<lparr> out_PASS = False, out_global_min = Some 1, out_witness = Some (1, 11 / 2),
                    out_intervals = 2, out_max_depth = 1, out_argmin_T = 1 \<rparr>"
    by (rule cert_loop_Inr [OF s2])
  finally show ?thesis
    by (simp add: adaptive_cert_def)
qed

theorem adaptive_cert_protocol_witness:
  "(0 :: real) < 1 \<and> (1 :: real) < 10 \<and>
   adaptive_cert 1 10 0 0 (- 1) 1 0 1 2 1 2 =
     Inr \<lparr> out_PASS = False, out_global_min = Some 1, out_witness = Some (1, 11 / 2),
           out_intervals = 2, out_max_depth = 1, out_argmin_T = 1 \<rparr> \<and>
   (\<exists>n s a b d. cert_iter (make_env 1 0 0 (- 1) 1 0 1 2 2) n (initial_state 1 10 1) = Some s \<and>
        work s \<noteq> [] \<and> last (work s) = (a, b, d) \<and> (a, b) = (1, 11 / 2) \<and>
        delta_at (make_env 1 0 0 (- 1) 1 0 1 2 2) a < 2) \<and>
   sampled (make_env 1 0 0 (- 1) 1 0 1 2 2) (initial_state 1 10 1) 1 \<and>
   delta_at (make_env 1 0 0 (- 1) 1 0 1 2 2) 1 = 1 \<and>
   adaptive_cert 1 10 0 0 (- 1) 1 0 1 (1 / 2) 1 131072 =
     Inr \<lparr> out_PASS = True, out_global_min = Some 1, out_witness = None,
           out_intervals = 1, out_max_depth = 0, out_argmin_T = 1 \<rparr> \<and>
   (\<exists>n s. cert_iter (make_env 1 0 0 (- 1) 1 0 1 (1 / 2) 131072) n (initial_state 1 10 1) = Some s \<and>
        work s = [] \<and> total s = int n \<and> int n \<le> 131072) \<and>
   synth_witness
     \<lparr> out_PASS = True, out_global_min = Some 1, out_witness = None,
       out_intervals = 1, out_max_depth = 0, out_argmin_T = 1 \<rparr>
     (make_env 1 0 0 (- 1) 1 0 1 (1 / 2) 131072) =
     ArgminDegenerate 0 2 1 (delta_at (make_env 1 0 0 (- 1) 1 0 1 (1 / 2) 131072) 1)"
proof -
  have dom: "(0 :: real) < 1" "(1 :: real) < 10" by simp_all
  note f = adaptive_cert_protocol [OF synthetic_fail_run refl refl dom]
  note p = adaptive_cert_protocol [OF synthetic_run [of "1 / 2" 131072] refl refl dom]
  have f3: "\<exists>n s a b d. cert_iter (make_env 1 0 0 (- 1) 1 0 1 2 2) n (initial_state 1 10 1) = Some s \<and>
        work s \<noteq> [] \<and> last (work s) = (a, b, d) \<and> (a, b) = (1, 11 / 2) \<and>
        delta_at (make_env 1 0 0 (- 1) 1 0 1 2 2) a < 2"
  proof -
    from f obtain n s a b d where
      h: "cert_iter (make_env 1 0 0 (- 1) 1 0 1 2 2) n (initial_state 1 10 1) = Some s"
         "work s \<noteq> []" "last (work s) = (a, b, d)" "(a, b) = (1, 11 / 2)"
      by auto
    have "delta_at (make_env 1 0 0 (- 1) 1 0 1 2 2) 1 = 1"
      by (simp add: delta_at_def make_env_def compute_delta_lo_def)
    with h show ?thesis by auto
  qed
  have f6: "sampled (make_env 1 0 0 (- 1) 1 0 1 2 2) (initial_state 1 10 1) 1 \<and>
            delta_at (make_env 1 0 0 (- 1) 1 0 1 2 2) 1 = 1"
    using f by simp
  have p1: "\<exists>n s. cert_iter (make_env 1 0 0 (- 1) 1 0 1 (1 / 2) 131072) n (initial_state 1 10 1) = Some s \<and>
        work s = [] \<and> total s = int n \<and> int n \<le> 131072"
    using p by simp
  have p2: "synth_witness
     \<lparr> out_PASS = True, out_global_min = Some 1, out_witness = None,
       out_intervals = 1, out_max_depth = 0, out_argmin_T = 1 \<rparr>
     (make_env 1 0 0 (- 1) 1 0 1 (1 / 2) 131072) =
     ArgminDegenerate 0 2 1 (delta_at (make_env 1 0 0 (- 1) 1 0 1 (1 / 2) 131072) 1)"
    using p by simp
  from f3 f6 p1 p2 synthetic_fail_run synthetic_run [of "1 / 2" 131072] show ?thesis
    by simp
qed

subsection \<open>The synthetic margin\<close>

text \<open>
  Claim C3, as stated: with \<open>\<delta>_lo(T) = 1/T\<close> on \<open>[1, 10]\<close>, \<open>mesh_initial = 1\<close> and the
  target \<open>1/1.5\<close>, \<open>adaptive_cert\<close> fails with a witness interval around \<open>T = 1.5\<close>. It
  does not: only the left endpoint \<open>T = 1\<close> is sampled, \<open>\<delta>_lo(1) = 1\<close> meets the target,
  and the run passes without a witness interval.
\<close>

theorem margin_synthetic_counterexample:
  "adaptive_cert 1 10 0 0 (- 1) 1 0 1 (1 / (3 / 2)) 1 131072 =
     Inr \<lparr> out_PASS = True, out_global_min = Some 1, out_witness = None,
           out_intervals = 1, out_max_depth = 0, out_argmin_T = 1 \<rparr> \<and>
   \<not> (\<exists>r a b. adaptive_cert 1 10 0 0 (- 1) 1 0 1 (1 / (3 / 2)) 1 131072 = Inr r \<and>
              \<not> out_PASS r \<and> out_witness r = Some (a, b) \<and> a \<le> 3 / 2 \<and> 3 / 2 \<le> b)"
proof -
  have run: "adaptive_cert 1 10 0 0 (- 1) 1 0 1 (1 / (3 / 2)) 1 131072 =
     Inr \<lparr> out_PASS = True, out_global_min = Some 1, out_witness = None,
           out_intervals = 1, out_max_depth = 0, out_argmin_T = 1 \<rparr>"
    by (rule synthetic_run) simp_all
  show ?thesis
    unfolding run by simp
qed

text \<open>
  Claim C3, amended: the margin \<open>\<delta>_lo(T) = 1/T\<close> is \<open>compute_delta_lo\<close> with
  \<open>eps_eff_lo = 0\<close>, \<open>grid_hi = 0\<close>, \<open>Cp = -1\<close>, \<open>ap = 1\<close>, \<open>Cg = 0\<close>. On \<open>[1, 10]\<close> with
  \<open>mesh_initial = 1\<close> and a budget of at least one interval, \<open>adaptive_cert\<close> yields
  \<open>PASS\<close> with no refinement for every target up to \<open>\<delta>_lo(1) = 1\<close>, so for the target
  \<open>0.5\<close> and for the target \<open>1/1.5\<close> alike: one interval is processed, at depth \<open>0\<close>, and
  no witness interval is returned.
\<close>

theorem margin_synthetic_run:
  "(0 < T \<longrightarrow> compute_delta_lo T 0 0 (- 1) 1 0 1 = 1 / T) \<and>
   (target \<le> 1 \<and> 1 \<le> mesh_max \<longrightarrow>
      adaptive_cert 1 10 0 0 (- 1) 1 0 1 target 1 mesh_max =
        Inr \<lparr> out_PASS = True, out_global_min = Some 1, out_witness = None,
              out_intervals = 1, out_max_depth = 0, out_argmin_T = 1 \<rparr>)"
  using synthetic_margin [of T] synthetic_run [of target mesh_max] by simp

theorem margin_synthetic_run_witness:
  "compute_delta_lo 2 0 0 (- 1) 1 0 1 = 1 / 2 \<and>
   adaptive_cert 1 10 0 0 (- 1) 1 0 1 (1 / 2) 1 131072 =
     Inr \<lparr> out_PASS = True, out_global_min = Some 1, out_witness = None,
           out_intervals = 1, out_max_depth = 0, out_argmin_T = 1 \<rparr>"
  using margin_synthetic_run [of 2 "1 / 2" 131072] by simp

subsection \<open>The clamped left endpoint\<close>










section \<open>Properties of the pivoted Cholesky factorization\<close>

declare chol_loop.simps [simp del]

lemma chol_step_cases:
  "chol_step tol n k s = Fail d \<longleftrightarrow> pivot_diag n k s < - tol \<and> d = pivot_diag n k s"
  "chol_step tol n k s = Break \<longleftrightarrow> - tol \<le> pivot_diag n k s \<and> pivot_diag n k s \<le> tol"
  "chol_step tol n k s = Next s' \<Longrightarrow> tol < pivot_diag n k s"
  by (auto simp: chol_step_def pivot_diag_def Let_def split: if_splits prod.splits)

lemma chol_step_rank:
  "chol_step tol n k s = Next s' \<Longrightarrow> cs_rank s' = cs_rank s + 1"
  by (auto simp: chol_step_def swap_pivot_def Let_def split: if_splits prod.splits)

lemma chol_loop_Fail:
  "k < n \<Longrightarrow> chol_step tol n k s = Fail d \<Longrightarrow> chol_loop tol n k s = (False, d, cs_rank s)"
  by (subst chol_loop.simps) simp

lemma chol_loop_Break:
  "k < n \<Longrightarrow> chol_step tol n k s = Break \<Longrightarrow> chol_loop tol n k s = chol_finish s"
  by (subst chol_loop.simps) simp

lemma chol_loop_Next:
  "k < n \<Longrightarrow> chol_step tol n k s = Next s' \<Longrightarrow> chol_loop tol n k s = chol_loop tol n (Suc k) s'"
  by (subst chol_loop.simps) simp

lemma chol_loop_done:
  "\<not> k < n \<Longrightarrow> chol_loop tol n k s = chol_finish s"
  by (subst chol_loop.simps) simp

lemma chol_state_at_Suc:
  "chol_state_at tol H (Suc k) = Some s' \<longleftrightarrow>
     (\<exists>s. chol_state_at tol H k = Some s \<and> k < length H \<and> chol_step tol (length H) k s = Next s')"
  by (auto split: option.splits chol_next.splits if_splits)

lemma chol_state_at_bound:
  "chol_state_at tol H k = Some s \<Longrightarrow> k \<le> length H"
  by (cases k) (auto simp: chol_state_at_Suc simp del: chol_state_at.simps)

lemma chol_state_at_rank:
  "chol_state_at tol H k = Some s \<Longrightarrow> cs_rank s = k"
proof (induction k arbitrary: s)
  case 0
  then show ?case by (auto simp: chol_init_def)
next
  case (Suc k)
  then obtain s0 where "chol_state_at tol H k = Some s0" "chol_step tol (length H) k s0 = Next s"
    unfolding chol_state_at_Suc by blast
  with Suc.IH [of s0] chol_step_rank [of tol "length H" k s0 s] show ?case by simp
qed


lemma chol_loop_at:
  "chol_state_at tol H k = Some s \<Longrightarrow> pivoted_cholesky_psd H tol = chol_loop tol (length H) k s"
proof (induction k arbitrary: s)
  case 0
  then show ?case by (simp add: pivoted_cholesky_psd_def)
next
  case (Suc k)
  from Suc.prems obtain s0 where s0: "chol_state_at tol H k = Some s0" and k: "k < length H"
    and st: "chol_step tol (length H) k s0 = Next s"
    unfolding chol_state_at_Suc by blast
  from Suc.IH [OF s0] chol_loop_Next [OF k st] show ?case by simp
qed

text \<open>The state in which the loop stops, and why.\<close>

lemma chol_loop_stop:
  assumes "chol_state_at tol H k = Some s" and "n = length H"
  shows "\<exists>k' s'. chol_state_at tol H k' = Some s' \<and>
           ((k' < n \<and> pivot_diag n k' s' < - tol \<and>
               chol_loop tol n k s = (False, pivot_diag n k' s', k')) \<or>
            (k' < n \<and> - tol \<le> pivot_diag n k' s' \<and> pivot_diag n k' s' \<le> tol \<and>
               chol_loop tol n k s = chol_finish s') \<or>
            (k' = n \<and> chol_loop tol n k s = chol_finish s'))"
  using assms
proof (induction tol n k s rule: chol_loop.induct)
  case (1 tol n k s)
  show ?case
  proof (cases "k < n")
    case False
    with chol_state_at_bound [OF "1.prems"(1)] "1.prems"(2) have "k = n" by simp
    with "1.prems"(1) chol_loop_done [OF False] show ?thesis by blast
  next
    case True
    show ?thesis
    proof (cases "chol_step tol n k s")
      case (Fail d)
      from Fail have "pivot_diag n k s < - tol" "d = pivot_diag n k s"
        by (simp_all add: chol_step_cases(1))
      with chol_loop_Fail [OF True Fail] chol_state_at_rank [OF "1.prems"(1)] "1.prems"(1) True
      show ?thesis by blast
    next
      case Break
      from Break have "- tol \<le> pivot_diag n k s \<and> pivot_diag n k s \<le> tol"
        by (simp add: chol_step_cases(2))
      with chol_loop_Break [OF True Break] "1.prems"(1) True show ?thesis by blast
    next
      case (Next s1)
      have at: "chol_state_at tol H (Suc k) = Some s1"
        unfolding chol_state_at_Suc using "1.prems" True Next by blast
      from "1.IH" [OF True Next at "1.prems"(2)] chol_loop_Next [OF True Next]
      show ?thesis by simp
    qed
  qed
qed


lemma upt_Suc0_2: "[Suc 0..<2] = [Suc 0]"
  by (simp add: upt_rec)





lemma dup_example_step0:
  "chol_step (1 / 2) 2 0 (chol_init dup_example) =
     Next \<lparr> cs_H = [[4, 2], [2, 0]], cs_diag = [4, 0], cs_L = [[2, 0], [1, 0]],
            cs_min_pivot = Some 2, cs_rank = 1 \<rparr>"
  by (simp add: chol_step_def chol_init_def dup_example_def argmax_from_def upt_Suc0_2
        mat_set_def elim_row_def elim_inner_def Let_def upt_rec [of 0] upt_rec [of 1])

lemma dup_example_at1:
  "chol_state_at (1 / 2) dup_example 1 =
     Some \<lparr> cs_H = [[4, 2], [2, 0]], cs_diag = [4, 0], cs_L = [[2, 0], [1, 0]],
            cs_min_pivot = Some 2, cs_rank = 1 \<rparr>"
proof -
  have len: "length dup_example = 2" by (simp add: dup_example_def)
  have "chol_state_at (1 / 2) dup_example (Suc 0) =
     Some \<lparr> cs_H = [[4, 2], [2, 0]], cs_diag = [4, 0], cs_L = [[2, 0], [1, 0]],
            cs_min_pivot = Some 2, cs_rank = 1 \<rparr>"
    unfolding chol_state_at_Suc using dup_example_step0 by (simp add: len)
  then show ?thesis by simp
qed

lemma indef_example_step0:
  "chol_step (1 / 2) 2 0 (chol_init indef_example) =
     Next \<lparr> cs_H = [[1, 2], [2, - 3]], cs_diag = [1, - 3], cs_L = [[1, 0], [2, 0]],
            cs_min_pivot = Some 1, cs_rank = 1 \<rparr>"
  by (simp add: chol_step_def chol_init_def indef_example_def argmax_from_def upt_Suc0_2
        mat_set_def elim_row_def elim_inner_def Let_def upt_rec [of 0] upt_rec [of 1])

lemma indef_example_pivot1:
  "pivot_diag 2 (Suc 0) \<lparr> cs_H = [[1, 2], [2, - 3]], cs_diag = [1, - 3], cs_L = [[1, 0], [2, 0]],
            cs_min_pivot = Some 1, cs_rank = Suc 0 \<rparr> = - 3"
  by (simp add: pivot_diag_def argmax_from_def)

lemma indef_example_run:
  "pivoted_cholesky_psd indef_example (1 / 2) = (False, - 3, 1)"
proof -
  let ?s1 = "\<lparr> cs_H = [[1, 2], [2, - 3]], cs_diag = [1, - 3], cs_L = [[1, 0], [2, 0]],
               cs_min_pivot = Some 1, cs_rank = 1 \<rparr>"
  have len: "length indef_example = 2" by (simp add: indef_example_def)
  have st: "chol_step (1 / 2) 2 (Suc 0) ?s1 = Fail (- 3)"
    by (subst chol_step_cases(1)) (simp add: indef_example_pivot1)
  have "chol_loop (1 / 2) 2 0 (chol_init indef_example) = chol_loop (1 / 2) 2 (Suc 0) ?s1"
    by (rule chol_loop_Next [OF _ indef_example_step0]) simp
  also have "\<dots> = (False, - 3, cs_rank ?s1)"
    by (rule chol_loop_Fail [OF _ st]) simp
  finally show ?thesis
    by (simp add: pivoted_cholesky_psd_def len)
qed

lemma dup_example_pivot1:
  "pivot_diag 2 (Suc 0) \<lparr> cs_H = [[4, 2], [2, 0]], cs_diag = [4, 0], cs_L = [[2, 0], [1, 0]],
            cs_min_pivot = Some 2, cs_rank = Suc 0 \<rparr> = 0"
  by (simp add: pivot_diag_def argmax_from_def)

text \<open>
  Claim C6: for a symmetric square matrix and a tolerance \<open>tol > 0\<close>,
  \<open>pivoted_cholesky_psd\<close> returns \<open>success = false\<close> only at a step whose selected
  pivot diagonal is strictly below \<open>-tol\<close> (and then returns that diagonal and the
  rank reached); a selected pivot diagonal in \<open>[-tol, 0]\<close> ends the factorization with
  \<open>success = true\<close> and the rank reached so far.
\<close>

theorem pivoted_cholesky_failure_rule:
  assumes "gram_matrix H" and "0 < tol"
  shows "(\<not> fst (pivoted_cholesky_psd H tol) \<longrightarrow>
            (\<exists>k s. k < length H \<and> chol_state_at tol H k = Some s \<and>
                   pivot_diag (length H) k s < - tol \<and>
                   pivoted_cholesky_psd H tol = (False, pivot_diag (length H) k s, k))) \<and>
         (k < length H \<and> chol_state_at tol H k = Some s \<and>
          - tol \<le> pivot_diag (length H) k s \<and> pivot_diag (length H) k s \<le> 0 \<longrightarrow>
            (\<exists>m. pivoted_cholesky_psd H tol = (True, m, k)))"
proof (intro conjI impI)
  assume nf: "\<not> fst (pivoted_cholesky_psd H tol)"
  have at0: "chol_state_at tol H 0 = Some (chol_init H)" by simp
  from chol_loop_stop [OF at0 refl] nf
  show "\<exists>k s. k < length H \<and> chol_state_at tol H k = Some s \<and>
               pivot_diag (length H) k s < - tol \<and>
               pivoted_cholesky_psd H tol = (False, pivot_diag (length H) k s, k)"
    unfolding pivoted_cholesky_psd_def chol_finish_def by auto
next
  assume h: "k < length H \<and> chol_state_at tol H k = Some s \<and>
             - tol \<le> pivot_diag (length H) k s \<and> pivot_diag (length H) k s \<le> 0"
  with assms(2) have "chol_step tol (length H) k s = Break"
    by (simp add: chol_step_cases(2))
  with h chol_loop_at [of tol H k s] chol_state_at_rank [of tol H k s]
  show "\<exists>m. pivoted_cholesky_psd H tol = (True, m, k)"
    by (simp add: chol_loop_Break chol_finish_def)
qed

theorem pivoted_cholesky_failure_rule_witness:
  "gram_matrix indef_example \<and> gram_matrix dup_example \<and> (0 :: real) < 1 / 2 \<and>
   pivoted_cholesky_psd indef_example (1 / 2) = (False, - 3, 1) \<and>
   (\<exists>k s. k < length indef_example \<and> chol_state_at (1 / 2) indef_example k = Some s \<and>
          pivot_diag (length indef_example) k s < - (1 / 2) \<and>
          pivot_diag (length indef_example) k s = - 3 \<and> k = 1) \<and>
   chol_state_at (1 / 2) dup_example 1 =
     Some \<lparr> cs_H = [[4, 2], [2, 0]], cs_diag = [4, 0], cs_L = [[2, 0], [1, 0]],
            cs_min_pivot = Some 2, cs_rank = 1 \<rparr> \<and>
   pivot_diag (length dup_example) 1
     \<lparr> cs_H = [[4, 2], [2, 0]], cs_diag = [4, 0], cs_L = [[2, 0], [1, 0]],
       cs_min_pivot = Some 2, cs_rank = 1 \<rparr> = 0 \<and>
   (\<exists>m. pivoted_cholesky_psd dup_example (1 / 2) = (True, m, 1))"
proof -
  let ?s1 = "\<lparr> cs_H = [[4, 2], [2, 0]], cs_diag = [4, 0], cs_L = [[2, 0], [1, 0]],
               cs_min_pivot = Some 2, cs_rank = 1 \<rparr>"
  have tol: "(0 :: real) < 1 / 2" by simp
  have gi: "gram_matrix indef_example"
    by (simp add: gram_matrix_def indef_example_def)
  have gd: "gram_matrix dup_example"
    by (simp add: gram_matrix_def dup_example_def)
  have len2: "length dup_example = 2" by (simp add: dup_example_def)
  have pd: "pivot_diag (length dup_example) 1 ?s1 = 0"
    by (simp add: len2 dup_example_pivot1)
  have len: "(1 :: nat) < length dup_example" by (simp add: len2)
  note f = pivoted_cholesky_failure_rule [OF gi tol, of 0 "chol_init indef_example"]
  note d = pivoted_cholesky_failure_rule [OF gd tol, of 1 ?s1]
  from f indef_example_run
  have f1: "\<exists>k s. k < length indef_example \<and> chol_state_at (1 / 2) indef_example k = Some s \<and>
          pivot_diag (length indef_example) k s < - (1 / 2) \<and>
          pivot_diag (length indef_example) k s = - 3 \<and> k = 1"
    by auto
  from d dup_example_at1 pd len
  have d1: "\<exists>m. pivoted_cholesky_psd dup_example (1 / 2) = (True, m, 1)"
    by simp
  from gi gd tol indef_example_run f1 dup_example_at1 pd d1 show ?thesis by blast
qed



section \<open>Properties of the interval bound oracle\<close>

lemma iv_mul_nonneg:
  assumes "0 \<le> xl" "xl \<le> xh" "0 \<le> yl" "yl \<le> yh"
  shows "iv_mul (xl, xh) (yl, yh) = (xl * yl, xh * yh)"
proof -
  have a: "xl * yl \<le> xl * yh" using assms by (intro mult_left_mono) auto
  have b: "xl * yl \<le> xh * yl" using assms by (intro mult_right_mono) auto
  have c: "xl * yh \<le> xh * yh" using assms by (intro mult_right_mono) auto
  have d: "xh * yl \<le> xh * yh" using assms by (intro mult_left_mono) auto
  from a b c d show ?thesis
    by (simp add: iv_mul_def min_def max_def)
qed

lemma iv_square_eq:
  assumes "a \<le> b"
  shows "iv_square (a, b) = ((max 0 (max a (- b)))\<^sup>2, (max (- a) b)\<^sup>2)"
proof -
  consider "0 \<le> a" | "a < 0" "b \<le> 0" | "a < 0" "0 < b" by linarith
  then show ?thesis
  proof cases
    case 1
    with assms have "max 0 (max a (- b)) = a" "max (- a) b = b" by (auto simp: max_def)
    with 1 show ?thesis by (simp add: iv_square_def power2_eq_square)
  next
    case 2
    with assms have "max 0 (max a (- b)) = - b" "max (- a) b = - a" by (auto simp: max_def)
    with 2 show ?thesis by (simp add: iv_square_def power2_eq_square)
  next
    case 3
    then have "max 0 (max a (- b)) = 0" by (auto simp: max_def)
    with 3 show ?thesis by (simp add: iv_square_def power2_eq_square)
  qed
qed

lemma sq_bounds:
  assumes "0 < s" "a \<le> b"
  shows "0 \<le> sq_lo s a b" "sq_lo s a b \<le> sq_hi s a b"
proof -
  have ab: "a / s \<le> b / s" using assms by (simp add: divide_right_mono)
  show "0 \<le> sq_lo s a b" by (simp add: sq_lo_def)
  have "max 0 (max (a / s) (- (b / s))) \<le> max (- (a / s)) (b / s)"
    using ab by (auto simp: max_def)
  then show "sq_lo s a b \<le> sq_hi s a b"
    unfolding sq_lo_def sq_hi_def by (intro power_mono) auto
qed

lemma sq_mono:
  assumes "0 < s" "a \<le> a'" "a' \<le> b'" "b' \<le> b"
  shows "sq_lo s a b \<le> sq_lo s a' b'" "sq_hi s a' b' \<le> sq_hi s a b"
proof -
  have d: "a / s \<le> a' / s" "a' / s \<le> b' / s" "b' / s \<le> b / s"
    using assms by (simp_all add: divide_right_mono)
  have "max 0 (max (a / s) (- (b / s))) \<le> max 0 (max (a' / s) (- (b' / s)))"
    using d by (auto simp: max_def)
  then show "sq_lo s a b \<le> sq_lo s a' b'"
    unfolding sq_lo_def by (intro power_mono) auto
  have "max (- (a' / s)) (b' / s) \<le> max (- (a / s)) (b / s)" "0 \<le> max (- (a' / s)) (b' / s)"
    using d by (auto simp: max_def)
  then show "sq_hi s a' b' \<le> sq_hi s a b"
    unfolding sq_hi_def by (intro power_mono) auto
qed

lemma W_abs_iv_on_eq:
  assumes "0 < sigma" "0 < k0" "a \<le> b"
  shows "W_abs_iv_on sigma k0 a b =
           (exp (- sq_hi sigma a b) * (1 - exp (- sq_lo k0 a b)),
            exp (- sq_lo sigma a b) * (1 - exp (- sq_hi k0 a b)))"
proof -
  have ds: "a / sigma \<le> b / sigma" and dk: "a / k0 \<le> b / k0"
    using assms by (simp_all add: divide_right_mono)
  note bs = sq_bounds [OF assms(1,3)] and bk = sq_bounds [OF assms(2,3)]
  have g: "iv_exp (iv_neg (iv_square (iv_div_pos (a, b) sigma))) =
             (exp (- sq_hi sigma a b), exp (- sq_lo sigma a b))"
    by (simp add: iv_div_pos_def iv_square_eq [OF ds] iv_neg_def iv_exp_def sq_lo_def sq_hi_def)
  have n: "iv_rsub 1 (iv_exp (iv_neg (iv_square (iv_div_pos (a, b) k0)))) =
             (1 - exp (- sq_lo k0 a b), 1 - exp (- sq_hi k0 a b))"
    by (simp add: iv_div_pos_def iv_square_eq [OF dk] iv_neg_def iv_exp_def iv_rsub_def
          sq_lo_def sq_hi_def)
  have m: "iv_mul (exp (- sq_hi sigma a b), exp (- sq_lo sigma a b))
             (1 - exp (- sq_lo k0 a b), 1 - exp (- sq_hi k0 a b)) =
           (exp (- sq_hi sigma a b) * (1 - exp (- sq_lo k0 a b)),
            exp (- sq_lo sigma a b) * (1 - exp (- sq_hi k0 a b)))"
    using bs bk by (intro iv_mul_nonneg) auto
  have lo: "0 \<le> exp (- sq_hi sigma a b) * (1 - exp (- sq_lo k0 a b))"
    using bk by (intro mult_nonneg_nonneg) auto
  have hi: "0 \<le> exp (- sq_lo sigma a b) * (1 - exp (- sq_hi k0 a b))"
    using bk by (intro mult_nonneg_nonneg) auto
  show ?thesis
    unfolding W_abs_iv_on_def Let_def g n m using lo hi by simp
qed

lemma W_abs_iv_on_sub:
  assumes "0 < sigma" "0 < k0" "a \<le> a'" "a' \<le> b'" "b' \<le> b"
  shows "fst (W_abs_iv_on sigma k0 a b) \<le> fst (W_abs_iv_on sigma k0 a' b')"
    and "snd (W_abs_iv_on sigma k0 a' b') \<le> snd (W_abs_iv_on sigma k0 a b)"
proof -
  have ab: "a \<le> b" using assms by simp
  note ms = sq_mono [OF assms(1) assms(3,4,5)] and mk = sq_mono [OF assms(2) assms(3,4,5)]
  note bk = sq_bounds [OF assms(2) ab] and bk' = sq_bounds [OF assms(2) assms(4)]
  have "exp (- sq_hi sigma a b) * (1 - exp (- sq_lo k0 a b)) \<le>
        exp (- sq_hi sigma a' b') * (1 - exp (- sq_lo k0 a' b'))"
    using ms mk bk by (intro mult_mono) auto
  then show "fst (W_abs_iv_on sigma k0 a b) \<le> fst (W_abs_iv_on sigma k0 a' b')"
    by (simp add: W_abs_iv_on_eq [OF assms(1,2) ab] W_abs_iv_on_eq [OF assms(1,2,4)])
  have "exp (- sq_lo sigma a' b') * (1 - exp (- sq_hi k0 a' b')) \<le>
        exp (- sq_lo sigma a b) * (1 - exp (- sq_hi k0 a b))"
    using ms mk bk bk' by (intro mult_mono) auto
  then show "snd (W_abs_iv_on sigma k0 a' b') \<le> snd (W_abs_iv_on sigma k0 a b)"
    by (simp add: W_abs_iv_on_eq [OF assms(1,2) ab] W_abs_iv_on_eq [OF assms(1,2,4)])
qed

lemma oracle_example_values:
  "fst (W_abs_iv_on 1 1 1 2) = exp (- 4) * (1 - exp (- 1))"
  "fst (W_abs_iv_on 1 1 1 (3 / 2)) = exp (- (9 / 4)) * (1 - exp (- 1))"
  "fst (W_abs_iv_on 1 1 (3 / 2) 2) = exp (- 4) * (1 - exp (- (9 / 4)))"
  by (simp_all add: W_abs_iv_on_eq sq_lo_def sq_hi_def power2_eq_square)

text \<open>
  Claim C7, as stated: the minimum of the lower enclosures of the two halves never
  exceeds the lower enclosure of the unsplit interval. For \<open>sigma = k0 = 1\<close> and the
  interval \<open>[1, 2]\<close> it does: both halves have a lower enclosure strictly above that of
  \<open>[1, 2]\<close>.
\<close>

theorem oracle_refinement_counterexample:
  "\<not> min (fst (W_abs_iv_on 1 1 1 (3 / 2))) (fst (W_abs_iv_on 1 1 (3 / 2) 2))
       \<le> fst (W_abs_iv_on 1 1 1 2)"
proof -
  have e1: "exp (- 4 :: real) < exp (- (9 / 4))" by simp
  have e2: "exp (- (9 / 4) :: real) < exp (- 1)" by simp
  have e3: "exp (- 1 :: real) < 1" by simp
  have l: "exp (- 4) * (1 - exp (- 1)) < exp (- (9 / 4)) * (1 - exp (- 1 :: real))"
    using e1 e3 by (intro mult_strict_right_mono) auto
  have r: "exp (- 4) * (1 - exp (- 1)) < exp (- 4) * (1 - exp (- (9 / 4) :: real))"
    using e2 by (intro mult_strict_left_mono) auto
  from l r have "exp (- 4) * (1 - exp (- 1)) <
      min (exp (- (9 / 4)) * (1 - exp (- 1))) (exp (- 4) * (1 - exp (- (9 / 4) :: real)))"
    by (auto simp: min_def)
  then show ?thesis
    unfolding oracle_example_values by (simp only: not_le)
qed

text \<open>
  Claim C7, amended: for \<open>sigma > 0\<close>, \<open>k0 > 0\<close> and an interval \<open>[a, b]\<close> with midpoint
  \<open>m\<close>, the minimum of the lower enclosures of \<open>[a, m]\<close> and \<open>[m, b]\<close> is never below
  the lower enclosure of \<open>[a, b]\<close>, and the maximum of their upper enclosures is never
  above its upper enclosure: the bounds only tighten. The enclosure satisfies
  \<open>0 \<le> lo \<le> hi\<close>.
\<close>

theorem oracle_refinement_tightens:
  assumes "0 < sigma" and "0 < k0" and "a \<le> b" and "m = (a + b) / 2"
  shows "fst (W_abs_iv_on sigma k0 a b) \<le>
           min (fst (W_abs_iv_on sigma k0 a m)) (fst (W_abs_iv_on sigma k0 m b)) \<and>
         max (snd (W_abs_iv_on sigma k0 a m)) (snd (W_abs_iv_on sigma k0 m b)) \<le>
           snd (W_abs_iv_on sigma k0 a b) \<and>
         0 \<le> fst (W_abs_iv_on sigma k0 a b) \<and>
         fst (W_abs_iv_on sigma k0 a b) \<le> snd (W_abs_iv_on sigma k0 a b)"
proof -
  have am: "a \<le> m" and mb: "m \<le> b" using assms(3,4) by simp_all
  note l = W_abs_iv_on_sub [OF assms(1,2) order_refl am mb]
  note r = W_abs_iv_on_sub [OF assms(1,2) am mb order_refl]
  note bs = sq_bounds [OF assms(1,3)] and bk = sq_bounds [OF assms(2,3)]
  have nonneg: "0 \<le> fst (W_abs_iv_on sigma k0 a b)"
    unfolding W_abs_iv_on_eq [OF assms(1,2,3)] using bk
    by (simp add: mult_nonneg_nonneg)
  have ord: "fst (W_abs_iv_on sigma k0 a b) \<le> snd (W_abs_iv_on sigma k0 a b)"
    unfolding W_abs_iv_on_eq [OF assms(1,2,3)] fst_conv snd_conv
    using bs bk by (intro mult_mono) auto
  from l r nonneg ord show ?thesis by simp
qed

theorem oracle_refinement_tightens_witness:
  "(0 :: real) < 1 \<and> (1 :: real) \<le> 2 \<and> (3 / 2 :: real) = (1 + 2) / 2 \<and>
   fst (W_abs_iv_on 1 1 1 2) \<le>
     min (fst (W_abs_iv_on 1 1 1 (3 / 2))) (fst (W_abs_iv_on 1 1 (3 / 2) 2)) \<and>
   max (snd (W_abs_iv_on 1 1 1 (3 / 2))) (snd (W_abs_iv_on 1 1 (3 / 2) 2)) \<le>
     snd (W_abs_iv_on 1 1 1 2) \<and>
   0 \<le> fst (W_abs_iv_on 1 1 1 2) \<and>
   fst (W_abs_iv_on 1 1 1 2) \<le> snd (W_abs_iv_on 1 1 1 2)"
  using oracle_refinement_tightens [of 1 1 1 2 "3 / 2"] by simp


section \<open>Properties of the hash-stamped writers\<close>

lemma ensure_meta_dict:
  "\<exists>m. map_of (ensure_meta p) ''meta'' = Some (JObj m)"
  by (auto simp: ensure_meta_def update_conv' split: option.splits json.splits)

lemma store_sha256_dict:
  assumes "map_of p ''meta'' = Some (JObj m)"
  shows "store_sha256 d p = Inr (AList.update ''meta'' (JObj (AList.update ''sha256'' (JStr d) m)) p)"
  using assms by (simp add: store_sha256_def)

lemma stored_after_store:
  "stored_sha256 (AList.update ''meta'' (JObj (AList.update ''sha256'' (JStr d) m)) p) = JStr d"
  by (simp add: stored_sha256_def update_conv')

lemma pop_after_store:
  assumes "map_of p ''meta'' = Some (JObj m)"
  shows "pop_sha256 (AList.update ''meta'' (JObj (AList.update ''sha256'' (JStr d) m)) p) =
         pop_sha256 p"
  using assms by (simp add: pop_sha256_def update_conv' delete_update_same)

lemma pop_without_sha:
  assumes "map_of p ''meta'' = Some (JObj m)" and "map_of m ''sha256'' = None"
  shows "pop_sha256 p = p"
proof -
  from assms(2) have "''sha256'' \<notin> fst ` set m" by (simp add: map_of_eq_None_iff)
  then have "AList.delete ''sha256'' m = m" by simp
  with assms(1) show ?thesis by (simp add: pop_sha256_def update_triv)
qed

lemma blank_after_store:
  assumes "map_of p ''meta'' = Some (JObj m)" and "map_of m ''sha256'' = Some (JStr [])"
  shows "blank_sha256 (AList.update ''meta'' (JObj (AList.update ''sha256'' (JStr d) m)) p) = p"
  using assms by (simp add: blank_sha256_def update_conv' update_triv)

lemma pop_style_round_trip:
  assumes "map_of p1 ''meta'' = Some (JObj m)"
  shows "\<exists>w. store_sha256 (sha256 (dumps (JObj (pop_sha256 p1)))) p1 = Inr w \<and>
             stored_sha256 w = JStr (rehash_removed sha256 dumps w)"
  using assms
  by (simp add: store_sha256_dict stored_after_store rehash_removed_def pop_after_store)

lemma setdefault_dps_dict:
  "map_of p ''meta'' = Some (JObj m) \<Longrightarrow> \<exists>m'. map_of (setdefault_dps dps p) ''meta'' = Some (JObj m')"
  by (auto simp: setdefault_dps_def update_conv' split: option.splits)

text \<open>
  Claim C4, amended, for any digest function and any serializer. A certificate
  written by \<open>write_json\<close> of \<open>rolling_T_uniform_cert_v3\<close> or of \<open>uniform_rollup_cert\<close>
  reproduces its stored digest when \<open>meta.sha256\<close> is removed and the result is
  serialized and hashed again. One written by \<open>write_json\<close> of \<open>band_cert\<close> does so
  when the payload carried no \<open>meta.sha256\<close> before it was written. One written by
  \<open>analytic_bounds\<close>, whose payload carries \<open>"sha256": ""\<close>, reproduces its stored digest
  when the field is set back to the empty string.
\<close>

theorem hash_round_trip:
  "(\<exists>w. write_json_rolling sha256 dumps payload = Inr w \<and>
        stored_sha256 w = JStr (rehash_removed sha256 dumps w)) \<and>
   (\<exists>w. write_json_rollup sha256 dumps payload dps = Inr w \<and>
        stored_sha256 w = JStr (rehash_removed sha256 dumps w)) \<and>
   (\<not> has_sha256 payload \<longrightarrow>
      (\<exists>w. write_json_band sha256 dumps payload = Inr w \<and>
           stored_sha256 w = JStr (rehash_removed sha256 dumps w))) \<and>
   ((\<exists>m. map_of payload ''meta'' = Some (JObj m) \<and> map_of m ''sha256'' = Some (JStr [])) \<longrightarrow>
      (\<exists>w. analytic_bounds_emit sha256 dumps payload = Inr w \<and>
           stored_sha256 w = JStr (rehash_blanked sha256 dumps w)))"
proof (intro conjI impI)
  obtain m where m: "map_of (ensure_meta payload) ''meta'' = Some (JObj m)"
    using ensure_meta_dict by blast
  from pop_style_round_trip [OF m]
  show "\<exists>w. write_json_rolling sha256 dumps payload = Inr w \<and>
            stored_sha256 w = JStr (rehash_removed sha256 dumps w)"
    by (simp add: write_json_rolling_def Let_def)
  obtain m' where m': "map_of (setdefault_dps dps (ensure_meta payload)) ''meta'' = Some (JObj m')"
    using setdefault_dps_dict [OF m] by blast
  from pop_style_round_trip [OF m']
  show "\<exists>w. write_json_rollup sha256 dumps payload dps = Inr w \<and>
            stored_sha256 w = JStr (rehash_removed sha256 dumps w)"
    by (simp add: write_json_rollup_def Let_def)
next
  assume no: "\<not> has_sha256 payload"
  obtain m where m: "map_of (ensure_meta payload) ''meta'' = Some (JObj m)"
    using ensure_meta_dict by blast
  have none: "map_of m ''sha256'' = None"
    using no m by (auto simp: has_sha256_def ensure_meta_def update_conv' split: option.splits json.splits)
  have "pop_sha256 (ensure_meta payload) = ensure_meta payload"
    by (rule pop_without_sha [OF m none])
  with pop_style_round_trip [OF m, of sha256 dumps]
  show "\<exists>w. write_json_band sha256 dumps payload = Inr w \<and>
            stored_sha256 w = JStr (rehash_removed sha256 dumps w)"
    by (simp add: write_json_band_def Let_def)
next
  assume "\<exists>m. map_of payload ''meta'' = Some (JObj m) \<and> map_of m ''sha256'' = Some (JStr [])"
  then obtain m where m: "map_of payload ''meta'' = Some (JObj m)"
    and e: "map_of m ''sha256'' = Some (JStr [])" by blast
  show "\<exists>w. analytic_bounds_emit sha256 dumps payload = Inr w \<and>
            stored_sha256 w = JStr (rehash_blanked sha256 dumps w)"
    by (simp add: analytic_bounds_emit_def write_json_with_sha_def Let_def store_sha256_dict [OF m]
          stored_after_store rehash_blanked_def blank_after_store [OF m e])
qed


lemma analytic_payload_meta:
  "map_of analytic_payload ''meta'' =
     Some (JObj [(''tool'', JStr ''analytic_bounds''), (''dps'', JStr ''50''),
                 (''created_utc'', JStr ''2025-01-01T00:00:00Z''), (''sha256'', JStr [])])"
  by (simp add: analytic_payload_def)

lemma analytic_removed_differs:
  "py_repr (JObj (pop_sha256 (AList.update ''meta''
      (JObj (AList.update ''sha256'' (JStr d)
         [(''tool'', JStr ''analytic_bounds''), (''dps'', JStr ''50''),
          (''created_utc'', JStr ''2025-01-01T00:00:00Z''), (''sha256'', JStr [])]))
      analytic_payload))) \<noteq> py_repr (JObj analytic_payload)"
  by (simp add: pop_sha256_def analytic_payload_def update_conv' delete_update_same str_int_def
        digit_char_def)

text \<open>
  Claim C4, as stated: for every artifact kind, removing the stored \<open>meta.sha256\<close>
  and hashing the serialization again gives the stored digest. The certificate of
  \<open>analytic_bounds\<close> is hashed while it carries \<open>"sha256": ""\<close>; with the key removed a
  different object is serialized, and a digest that keeps the two serializations
  apart does not give the stored value.
\<close>

theorem hash_round_trip_counterexample:
  "\<not> (\<forall>sha256 dumps w. analytic_bounds_emit sha256 dumps analytic_payload = Inr w \<longrightarrow>
          stored_sha256 w = JStr (rehash_removed sha256 dumps w))"
proof
  assume h: "\<forall>sha256 dumps w. analytic_bounds_emit sha256 dumps analytic_payload = Inr w \<longrightarrow>
               stored_sha256 w = JStr (rehash_removed sha256 dumps w)"
  let ?d = "tag_digest (py_repr (JObj analytic_payload))"
  let ?w = "AList.update ''meta''
      (JObj (AList.update ''sha256'' (JStr ?d)
         [(''tool'', JStr ''analytic_bounds''), (''dps'', JStr ''50''),
          (''created_utc'', JStr ''2025-01-01T00:00:00Z''), (''sha256'', JStr [])]))
      analytic_payload"
  have emit: "analytic_bounds_emit tag_digest py_repr analytic_payload = Inr ?w"
    by (simp add: analytic_bounds_emit_def write_json_with_sha_def
          store_sha256_dict [OF analytic_payload_meta])
  from h emit have "stored_sha256 ?w = JStr (rehash_removed tag_digest py_repr ?w)" by blast
  then have "tag_digest (py_repr (JObj analytic_payload)) =
             tag_digest (py_repr (JObj (pop_sha256 ?w)))"
    by (simp only: stored_after_store rehash_removed_def json.inject)
  then have "py_repr (JObj (pop_sha256 ?w)) = py_repr (JObj analytic_payload)"
    by (simp add: tag_digest_def)
  with analytic_removed_differs show False by blast
qed

theorem hash_round_trip_witness:
  "(\<exists>w. write_json_rolling tag_digest py_repr rolling_payload_json = Inr w \<and>
        stored_sha256 w = JStr (rehash_removed tag_digest py_repr w)) \<and>
   (\<exists>w. write_json_rollup tag_digest py_repr rolling_payload_json 50 = Inr w \<and>
        stored_sha256 w = JStr (rehash_removed tag_digest py_repr w)) \<and>
   \<not> has_sha256 band_payload \<and>
   (\<exists>w. write_json_band tag_digest py_repr band_payload = Inr w \<and>
        stored_sha256 w = JStr (rehash_removed tag_digest py_repr w)) \<and>
   (\<exists>m. map_of analytic_payload ''meta'' = Some (JObj m) \<and> map_of m ''sha256'' = Some (JStr [])) \<and>
   (\<exists>w. analytic_bounds_emit tag_digest py_repr analytic_payload = Inr w \<and>
        stored_sha256 w = JStr (rehash_blanked tag_digest py_repr w))"
proof -
  have nb: "\<not> has_sha256 band_payload"
    by (simp add: has_sha256_def band_payload_def)
  have an: "\<exists>m. map_of analytic_payload ''meta'' = Some (JObj m) \<and> map_of m ''sha256'' = Some (JStr [])"
    by (simp add: analytic_payload_def)
  from hash_round_trip [of tag_digest py_repr rolling_payload_json 50]
       hash_round_trip [of tag_digest py_repr band_payload 50]
       hash_round_trip [of tag_digest py_repr analytic_payload 50] nb an
  show ?thesis by blast
qed

end
